theory Spec2Isabelle
  imports Main
begin

section \<open>Strings and exceptions\<close>

text \<open>
  A Python \<open>str\<close> is a sequence of code points. The model keeps the code points
  below 256, one \<^typ>\<open>char\<close> each (\<open>of_char c\<close> is the code point), so \<open>length\<close>
  is Python's \<open>len\<close>. On this range \<open>str.isdigit\<close> holds for \<open>0\<close> to \<open>9\<close> and for
  the superscript digits U+00B2, U+00B3 and U+00B9 (Numeric_Type=Digit), while
  \<open>str.isdecimal\<close> and the regular expression class \<open>\\d\<close> hold for \<open>0\<close> to \<open>9\<close>
  only. \<open>str.isalpha\<close> holds for the letters: A to Z, a to z, U+00AA, U+00B5,
  U+00BA, and U+00C0 to U+00FF without the signs U+00D7 and U+00F7.
\<close>

definition is_decimal_char :: "char \<Rightarrow> bool" where
  "is_decimal_char c = (48 \<le> (of_char c :: nat) \<and> (of_char c :: nat) \<le> 57)"

definition is_digit_char :: "char \<Rightarrow> bool" where
  "is_digit_char c =
     (is_decimal_char c \<or> (of_char c :: nat) = 178 \<or> (of_char c :: nat) = 179
      \<or> (of_char c :: nat) = 185)"

definition is_alpha_char :: "char \<Rightarrow> bool" where
  "is_alpha_char c =
     (let n = (of_char c :: nat) in
        (65 \<le> n \<and> n \<le> 90) \<or> (97 \<le> n \<and> n \<le> 122) \<or> n = 170 \<or> n = 181 \<or> n = 186
        \<or> (192 \<le> n \<and> n \<le> 255 \<and> n \<noteq> 215 \<and> n \<noteq> 247))"

text \<open>\<open>str.isdigit\<close>, \<open>str.isdecimal\<close>, \<open>str.isalpha\<close>: false on the empty string.\<close>

definition isdigit :: "string \<Rightarrow> bool" where
  "isdigit s = (s \<noteq> [] \<and> list_all is_digit_char s)"

definition isdecimal :: "string \<Rightarrow> bool" where
  "isdecimal s = (s \<noteq> [] \<and> list_all is_decimal_char s)"

definition isalpha :: "string \<Rightarrow> bool" where
  "isalpha s = (s \<noteq> [] \<and> list_all is_alpha_char s)"

text \<open>
  The exceptions the program raises or meets, each with its message.
  \<open>ValidationException\<close> is the program's own class; \<open>ValueError\<close> and
  \<open>OverflowError\<close> come from \<open>datetime\<close>.
\<close>

datatype exn =
    ValidationException string
  | KeyError string
  | IndexError string
  | ValueError string
  | OverflowError string

definition exn_message :: "exn \<Rightarrow> string" where
  "exn_message e =
     (case e of ValidationException m \<Rightarrow> m | KeyError m \<Rightarrow> m | IndexError m \<Rightarrow> m
      | ValueError m \<Rightarrow> m | OverflowError m \<Rightarrow> m)"

text \<open>
  \<open>str(e)\<close>: the message, except that \<open>KeyError.__str__\<close> gives the \<open>repr\<close> of its
  argument. For a message without quotes, backslashes or control characters (the
  program's only one is \<open>Contact not found.\<close>) the \<open>repr\<close> is the message between
  two apostrophes.
\<close>

definition py_repr :: "string \<Rightarrow> string" where
  "py_repr m = [CHR 0x27] @ m @ [CHR 0x27]"

definition exn_str :: "exn \<Rightarrow> string" where
  "exn_str e = (case e of KeyError m \<Rightarrow> py_repr m | _ \<Rightarrow> exn_message e)"

section \<open>Validated fields\<close>

text \<open>
  \<open>Name(value)\<close> and \<open>Phone(value)\<close> store the value and then validate it; a field
  that fails validation is never returned, so the result is the value or the
  exception.
\<close>

definition Name :: "string \<Rightarrow> exn + string" where
  "Name v = (if \<not> isalpha v then Inl (ValidationException ''Name must contain only letters'')
             else Inr v)"

definition Phone :: "string \<Rightarrow> exn + string" where
  "Phone v = (if \<not> isdigit v \<or> length v \<noteq> 10
              then Inl (ValidationException ''Phone number must be 10 digits'')
              else Inr v)"

section \<open>Calendar dates\<close>

text \<open>
  \<open>datetime.date\<close> of the standard library: a year from 1 to 9999, a month and a
  day of the proleptic Gregorian calendar. The functions below follow CPython's
  \<open>_is_leap\<close>, \<open>_days_in_month\<close>, \<open>_days_before_year\<close>, \<open>_days_before_month\<close>,
  \<open>_ymd2ord\<close> and \<open>weekday\<close> (Monday is 0, Sunday is 6).
\<close>

record date =
  year :: nat
  month :: nat
  day :: nat

definition MAXYEAR :: nat where
  "MAXYEAR = 9999"

definition is_leap :: "nat \<Rightarrow> bool" where
  "is_leap y = (y mod 4 = 0 \<and> (y mod 100 \<noteq> 0 \<or> y mod 400 = 0))"

definition DAYS_IN_MONTH :: "nat list" where
  "DAYS_IN_MONTH = [31, 28, 31, 30, 31, 30, 31, 31, 30, 31, 30, 31]"

definition days_in_month :: "nat \<Rightarrow> nat \<Rightarrow> nat" where
  "days_in_month y m = (if m = 2 \<and> is_leap y then 29 else DAYS_IN_MONTH ! (m - 1))"

definition days_before_year :: "nat \<Rightarrow> nat" where
  "days_before_year y = (y - 1) * 365 + (y - 1) div 4 + (y - 1) div 400 - (y - 1) div 100"

definition days_before_month :: "nat \<Rightarrow> nat \<Rightarrow> nat" where
  "days_before_month y m =
     sum_list (take (m - 1) DAYS_IN_MONTH) + (if m > 2 \<and> is_leap y then 1 else 0)"

definition valid_date :: "date \<Rightarrow> bool" where
  "valid_date d =
     (1 \<le> year d \<and> year d \<le> MAXYEAR \<and> 1 \<le> month d \<and> month d \<le> 12
      \<and> 1 \<le> day d \<and> day d \<le> days_in_month (year d) (month d))"

definition toordinal :: "date \<Rightarrow> nat" where
  "toordinal d = days_before_year (year d) + days_before_month (year d) (month d) + day d"

definition weekday :: "date \<Rightarrow> nat" where
  "weekday d = (toordinal d + 6) mod 7"

text \<open>\<open>a < b\<close> on dates compares year, month and day in this order.\<close>

definition date_less :: "date \<Rightarrow> date \<Rightarrow> bool" where
  "date_less a b =
     (year a < year b \<or> (year a = year b \<and> (month a < month b
        \<or> (month a = month b \<and> day a < day b))))"

text \<open>\<open>(a - b).days\<close>: the difference of the ordinals.\<close>

definition days_between :: "date \<Rightarrow> date \<Rightarrow> int" where
  "days_between a b = int (toordinal a) - int (toordinal b)"

text \<open>
  Decimal rendering of a number without padding, as the C library's \<open>%i\<close> and
  \<open>%Y\<close> give it.
\<close>

definition digit_char :: "nat \<Rightarrow> char" where
  "digit_char n = char_of (48 + n)"

fun dec :: "nat \<Rightarrow> string" where
  "dec n = (if n < 10 then [digit_char n]
            else dec (n div 10) @ [digit_char (n mod 10)])"

declare dec.simps [simp del]

text \<open>
  The constructor's range check, in CPython's order: year, month, day. Each
  failure is a \<open>ValueError\<close>, with the message of CPython 3.8 to 3.13.
\<close>

definition date_new :: "nat \<Rightarrow> nat \<Rightarrow> nat \<Rightarrow> exn + date" where
  "date_new y m d =
     (if y < 1 \<or> y > MAXYEAR then Inl (ValueError (''year '' @ dec y @ '' is out of range''))
      else if m < 1 \<or> m > 12 then Inl (ValueError ''month must be in 1..12'')
      else if d < 1 \<or> d > days_in_month y m then Inl (ValueError ''day is out of range for month'')
      else Inr \<lparr>year = y, month = m, day = d\<rparr>)"

text \<open>\<open>d.replace(year=y)\<close> builds a new date from \<open>y\<close> and the month and day of \<open>d\<close>.\<close>

definition replace_year :: "date \<Rightarrow> nat \<Rightarrow> exn + date" where
  "replace_year d y = date_new y (month d) (day d)"

text \<open>
  \<open>d + timedelta(days=n)\<close> is the date whose ordinal is \<open>n\<close> more, and an
  \<open>OverflowError\<close> past 31 December 9999. The model steps the calendar one day
  at a time; \<open>toordinal_next_day\<close> below shows that each step adds one to the
  ordinal.
\<close>

definition next_day :: "date \<Rightarrow> date" where
  "next_day d =
     (if day d < days_in_month (year d) (month d) then d\<lparr>day := day d + 1\<rparr>
      else if month d < 12 then d\<lparr>month := month d + 1, day := 1\<rparr>
      else \<lparr>year = year d + 1, month = 1, day = 1\<rparr>)"

fun add_days :: "date \<Rightarrow> nat \<Rightarrow> exn + date" where
  "add_days d 0 = Inr d"
| "add_days d (Suc n) =
     (if year (next_day d) > MAXYEAR then Inl (OverflowError ''date value out of range'')
      else add_days (next_day d) n)"

text \<open>
  \<open>date.strftime\<close> hands the format to the C library's \<open>strftime\<close>. With glibc
  \<open>%d\<close> and \<open>%m\<close> are two digits, zero-padded, and \<open>%Y\<close> is the year as a decimal
  number without padding: the year 999 is printed as \<open>999\<close>, not as \<open>0999\<close>.
\<close>

definition pad2 :: "nat \<Rightarrow> string" where
  "pad2 n = [digit_char (n div 10 mod 10), digit_char (n mod 10)]"

definition strftime_dmY :: "date \<Rightarrow> string" where
  "strftime_dmY d = pad2 (day d) @ ''.'' @ pad2 (month d) @ ''.'' @ dec (year d)"

definition strftime_Ymd :: "date \<Rightarrow> string" where
  "strftime_Ymd d = dec (year d) @ ''.'' @ pad2 (month d) @ ''.'' @ pad2 (day d)"

text \<open>
  \<open>datetime.strptime(s, "%d.%m.%Y")\<close> matches \<open>s\<close> against the regular expression
  \<^verbatim>\<open>(3[0-1]|[1-2]\d|0[1-9]|[1-9]| [1-9])\.(1[0-2]|0[1-9]|[1-9])\.(\d\d\d\d)\<close>
  built from the format, refuses a match that leaves text unread, converts the
  three groups with \<open>int\<close> and builds the date. Each matcher returns its
  alternatives in the order the regular expression tries them, as pairs of the
  group's number and the rest of the text; \<open>None\<close> is a \<open>ValueError\<close>.
\<close>

definition digit_val :: "char \<Rightarrow> nat" where
  "digit_val c = of_char c - 48"

definition in_range :: "char \<Rightarrow> char \<Rightarrow> char \<Rightarrow> bool" where
  "in_range lo hi c = ((of_char lo :: nat) \<le> of_char c \<and> (of_char c :: nat) \<le> of_char hi)"

fun two_chars :: "(char \<Rightarrow> bool) \<Rightarrow> (char \<Rightarrow> bool) \<Rightarrow> string \<Rightarrow> (nat \<times> string) list" where
  "two_chars p q (a # b # s) =
     (if p a \<and> q b then [((if a = CHR '' '' then 0 else 10 * digit_val a) + digit_val b, s)]
      else [])"
| "two_chars p q s = []"

fun one_char :: "(char \<Rightarrow> bool) \<Rightarrow> string \<Rightarrow> (nat \<times> string) list" where
  "one_char p (a # s) = (if p a then [(digit_val a, s)] else [])"
| "one_char p [] = []"

definition re_d :: "string \<Rightarrow> (nat \<times> string) list" where
  "re_d s =
     two_chars (\<lambda>c. c = CHR ''3'') (in_range CHR ''0'' CHR ''1'') s
     @ two_chars (in_range CHR ''1'' CHR ''2'') is_decimal_char s
     @ two_chars (\<lambda>c. c = CHR ''0'') (in_range CHR ''1'' CHR ''9'') s
     @ one_char (in_range CHR ''1'' CHR ''9'') s
     @ two_chars (\<lambda>c. c = CHR '' '') (in_range CHR ''1'' CHR ''9'') s"

definition re_m :: "string \<Rightarrow> (nat \<times> string) list" where
  "re_m s =
     two_chars (\<lambda>c. c = CHR ''1'') (in_range CHR ''0'' CHR ''2'') s
     @ two_chars (\<lambda>c. c = CHR ''0'') (in_range CHR ''1'' CHR ''9'') s
     @ one_char (in_range CHR ''1'' CHR ''9'') s"

fun re_Y :: "string \<Rightarrow> (nat \<times> string) list" where
  "re_Y (a # b # c # d # s) =
     (if is_decimal_char a \<and> is_decimal_char b \<and> is_decimal_char c \<and> is_decimal_char d
      then [(1000 * digit_val a + 100 * digit_val b + 10 * digit_val c + digit_val d, s)]
      else [])"
| "re_Y s = []"

fun re_dot :: "string \<Rightarrow> string list" where
  "re_dot (a # s) = (if a = CHR ''.'' then [s] else [])"
| "re_dot [] = []"

definition re_match :: "string \<Rightarrow> (nat \<times> nat \<times> nat \<times> string) list" where
  "re_match s =
     concat (map (\<lambda>(d, s1).
       concat (map (\<lambda>s2.
         concat (map (\<lambda>(m, s3).
           concat (map (\<lambda>s4.
             map (\<lambda>(y, s5). (d, m, y, s5)) (re_Y s4)) (re_dot s3))) (re_m s2))) (re_dot s1)))
       (re_d s))"

definition strptime_dmY :: "string \<Rightarrow> date option" where
  "strptime_dmY s =
     (case re_match s of
        [] \<Rightarrow> None
      | (d, m, y, rest) # _ \<Rightarrow>
          if rest \<noteq> [] then None
          else (case date_new y m d of Inl e \<Rightarrow> None | Inr dt \<Rightarrow> Some dt))"

text \<open>
  \<open>Birthday(value)\<close> parses the text and turns the parser's \<open>ValueError\<close> into a
  \<open>ValidationException\<close>; the field's value is the date.
\<close>

definition Birthday :: "string \<Rightarrow> exn + date" where
  "Birthday v =
     (case strptime_dmY v of
        None \<Rightarrow> Inl (ValidationException ''Invalid date format. Use DD.MM.YYYY'')
      | Some d \<Rightarrow> Inr d)"

section \<open>Contact records\<close>

text \<open>
  A \<open>Record\<close> owns its name, the list of its phones (each a \<open>Phone\<close> object, here
  its value) and an optional birthday (the \<open>Birthday\<close> object's date). No two
  records share a phone object, so a phone list is a list of values.
\<close>

record Record =
  name :: string
  phones :: "string list"
  birthday :: "date option"

definition Record_init :: "string \<Rightarrow> exn + Record" where
  "Record_init n =
     (case Name n of Inl e \<Rightarrow> Inl e
      | Inr v \<Rightarrow> Inr \<lparr>name = v, phones = [], birthday = None\<rparr>)"

definition add_phone :: "Record \<Rightarrow> string \<Rightarrow> exn + Record" where
  "add_phone r phone =
     (case Phone phone of Inl e \<Rightarrow> Inl e
      | Inr p \<Rightarrow> Inr (r\<lparr>phones := phones r @ [p]\<rparr>))"

text \<open>
  The loop of \<open>edit_phone\<close>: the first phone whose value is \<open>old_phone\<close> gets the
  value \<open>new_phone\<close> and the loop returns; \<open>None\<close> when no phone matched.
\<close>

fun edit_phone_loop :: "string list \<Rightarrow> string \<Rightarrow> string \<Rightarrow> string list option" where
  "edit_phone_loop [] old_phone new_phone = None"
| "edit_phone_loop (p # ps) old_phone new_phone =
     (if p = old_phone then Some (new_phone # ps)
      else map_option (\<lambda>ps'. p # ps') (edit_phone_loop ps old_phone new_phone))"

definition edit_phone :: "Record \<Rightarrow> string \<Rightarrow> string \<Rightarrow> exn + Record" where
  "edit_phone r old_phone new_phone =
     (case edit_phone_loop (phones r) old_phone new_phone of
        None \<Rightarrow> Inl (ValidationException ''Phone number not found'')
      | Some ps \<Rightarrow> Inr (r\<lparr>phones := ps\<rparr>))"

definition add_birthday :: "Record \<Rightarrow> string \<Rightarrow> exn + Record" where
  "add_birthday r b =
     (case Birthday b of Inl e \<Rightarrow> Inl e | Inr d \<Rightarrow> Inr (r\<lparr>birthday := Some d\<rparr>))"

definition show_birthday :: "Record \<Rightarrow> string" where
  "show_birthday r =
     (case birthday r of Some d \<Rightarrow> strftime_dmY d | None \<Rightarrow> ''Birthday not set'')"

text \<open>\<open>sep.join(xs)\<close>.\<close>

fun str_join :: "string \<Rightarrow> string list \<Rightarrow> string" where
  "str_join sep [] = []"
| "str_join sep [x] = x"
| "str_join sep (x # y # xs) = x @ sep @ str_join sep (y # xs)"

definition Record_str :: "Record \<Rightarrow> string" where
  "Record_str r =
     ''Contact name: '' @ name r @ '', phones: '' @ str_join ''; '' (phones r)
     @ (case birthday r of Some d \<Rightarrow> '', birthday: '' @ show_birthday r | None \<Rightarrow> [])"

section \<open>The address book\<close>

text \<open>
  \<open>AddressBook\<close> is a \<open>UserDict\<close>: a dictionary from names to records that keeps
  the order of insertion, here a list of pairs. \<open>data[k] = r\<close> replaces the entry
  of \<open>k\<close> where it stands, or appends a new one.
\<close>

type_synonym AddressBook = "(string \<times> Record) list"

fun dict_set :: "AddressBook \<Rightarrow> string \<Rightarrow> Record \<Rightarrow> AddressBook" where
  "dict_set [] k r = [(k, r)]"
| "dict_set ((k', r') # kvs) k r =
     (if k' = k then (k, r) # kvs else (k', r') # dict_set kvs k r)"

definition add_record :: "AddressBook \<Rightarrow> Record \<Rightarrow> AddressBook" where
  "add_record book r = dict_set book (name r) r"

definition find_book :: "AddressBook \<Rightarrow> string \<Rightarrow> Record option" where
  "find_book book n = map_of book n"

definition delete :: "AddressBook \<Rightarrow> string \<Rightarrow> AddressBook" where
  "delete book n = filter (\<lambda>kv. fst kv \<noteq> n) book"

text \<open>
  One emitted entry of \<open>get_upcoming_birthdays\<close>: the dictionary with the keys
  \<open>name\<close>, \<open>birthday\<close> and \<open>congratulation_date\<close>.
\<close>

record upcoming =
  u_name :: string
  u_birthday :: string
  u_congratulation_date :: string

text \<open>
  The body of the loop of \<open>get_upcoming_birthdays\<close> for one record with the
  birthday \<open>b\<close>: \<open>Inr None\<close> when the record is skipped, \<open>Inr (Some e)\<close> when the
  entry \<open>e\<close> is appended, \<open>Inl\<close> when \<open>replace\<close> or the addition raises.
\<close>

definition shift_weekend :: "date \<Rightarrow> exn + date" where
  "shift_weekend c =
     (if weekday c = 5 then add_days c 2
      else if weekday c = 6 then add_days c 1
      else Inr c)"

definition upcoming_entry :: "date \<Rightarrow> string \<Rightarrow> date \<Rightarrow> exn + upcoming option" where
  "upcoming_entry today n b =
     (case replace_year b (year today) of
        Inl e \<Rightarrow> Inl e
      | Inr t0 \<Rightarrow>
          (case (if date_less t0 today then replace_year t0 (year today + 1) else Inr t0) of
             Inl e \<Rightarrow> Inl e
           | Inr this_year_birthday \<Rightarrow>
               if 0 \<le> days_between this_year_birthday today
                  \<and> days_between this_year_birthday today \<le> 7
               then (case shift_weekend this_year_birthday of
                       Inl e \<Rightarrow> Inl e
                     | Inr congratulation_date \<Rightarrow>
                         Inr (Some \<lparr>u_name = n,
                                    u_birthday = strftime_dmY congratulation_date,
                                    u_congratulation_date = strftime_Ymd congratulation_date\<rparr>))
               else Inr None))"

fun upcoming_loop :: "date \<Rightarrow> Record list \<Rightarrow> upcoming list \<Rightarrow> exn + upcoming list" where
  "upcoming_loop today [] acc = Inr acc"
| "upcoming_loop today (r # rs) acc =
     (case birthday r of
        None \<Rightarrow> upcoming_loop today rs acc
      | Some b \<Rightarrow>
          (case upcoming_entry today (name r) b of
             Inl e \<Rightarrow> Inl e
           | Inr None \<Rightarrow> upcoming_loop today rs acc
           | Inr (Some e) \<Rightarrow> upcoming_loop today rs (acc @ [e])))"

text \<open>\<open>today\<close> stands for \<open>datetime.now().date()\<close>.\<close>

definition get_upcoming_birthdays :: "date \<Rightarrow> AddressBook \<Rightarrow> exn + upcoming list" where
  "get_upcoming_birthdays today book = upcoming_loop today (map snd book) []"

text \<open>
  The methods below change the book, and a change made before an exception stays:
  each returns the result or the exception together with the book as it is left.
  A record reached through \<open>find(name)\<close> is the object stored under the key
  \<open>name\<close>, so a change to it is a change of that entry.
\<close>

definition add_contact ::
  "AddressBook \<Rightarrow> string \<Rightarrow> string option \<Rightarrow> (exn + string) \<times> AddressBook" where
  "add_contact book n phone =
     (case (case find_book book n of
              None \<Rightarrow> (case Record_init n of
                          Inl e \<Rightarrow> Inl e
                        | Inr r \<Rightarrow> Inr (r, add_record book r, ''Contact added.''))
            | Some r \<Rightarrow> Inr (r, book, ''Contact updated.'')) of
        Inl e \<Rightarrow> (Inl e, book)
      | Inr (r, book', message) \<Rightarrow>
          (case phone of
             None \<Rightarrow> (Inr message, book')
           | Some p \<Rightarrow>
               if p = [] then (Inr message, book')
               else (case add_phone r p of
                       Inl e \<Rightarrow> (Inl e, book')
                     | Inr r' \<Rightarrow> (Inr message, dict_set book' n r'))))"

definition change_contact ::
  "AddressBook \<Rightarrow> string \<Rightarrow> string \<Rightarrow> string \<Rightarrow> (exn + string) \<times> AddressBook" where
  "change_contact book n old_phone new_phone =
     (case find_book book n of
        None \<Rightarrow> (Inl (KeyError ''Contact not found.''), book)
      | Some r \<Rightarrow>
          (case edit_phone r old_phone new_phone of
             Inl e \<Rightarrow> (Inl e, book)
           | Inr r' \<Rightarrow> (Inr ''Phone number updated.'', dict_set book n r')))"

definition show_phone :: "AddressBook \<Rightarrow> string \<Rightarrow> exn + string" where
  "show_phone book n =
     (case find_book book n of
        None \<Rightarrow> Inl (KeyError ''Contact not found.'')
      | Some r \<Rightarrow> Inr (str_join ''; '' (phones r)))"

definition show_all :: "AddressBook \<Rightarrow> string" where
  "show_all book =
     (if book = [] then ''No contacts available.''
      else str_join [CHR 0x0A] (map (\<lambda>kv. Record_str (snd kv)) book))"

section \<open>Command handlers\<close>

text \<open>
  The decorator \<open>input_error\<close>: the wrapped function runs inside \<open>try\<close>, and any
  \<open>Exception\<close> \<open>e\<close> becomes the returned text \<open>str(e)\<close>. Every class of \<^typ>\<open>exn\<close>
  derives from \<open>Exception\<close>. The book is returned as the call left it.
\<close>

definition input_error ::
  "('a \<Rightarrow> (exn + string) \<times> AddressBook) \<Rightarrow> 'a \<Rightarrow> string \<times> AddressBook" where
  "input_error func x =
     (case func x of
        (Inl e, book) \<Rightarrow> (exn_str e, book)
      | (Inr v, book) \<Rightarrow> (v, book))"

text \<open>
  The decorated functions, before decoration. After the check of \<open>len(args)\<close> the
  list is unpacked into its elements.
\<close>

definition handle_add_birthday_func ::
  "string list \<times> AddressBook \<Rightarrow> (exn + string) \<times> AddressBook" where
  "handle_add_birthday_func x =
     (case x of (args, book) \<Rightarrow>
        (case args of
           [n, d] \<Rightarrow>
             (case find_book book n of
                None \<Rightarrow> (Inl (KeyError ''Contact not found.''), book)
              | Some r \<Rightarrow>
                  (case add_birthday r d of
                     Inl e \<Rightarrow> (Inl e, book)
                   | Inr r' \<Rightarrow> (Inr ''Birthday added'', dict_set book n r')))
         | _ \<Rightarrow> (Inl (IndexError ''Please provide contact name and birthday date.''), book)))"

definition handle_show_birthday_func ::
  "string list \<times> AddressBook \<Rightarrow> (exn + string) \<times> AddressBook" where
  "handle_show_birthday_func x =
     (case x of (args, book) \<Rightarrow>
        (case args of
           [n] \<Rightarrow>
             (case find_book book n of
                None \<Rightarrow> (Inl (KeyError ''Contact not found.''), book)
              | Some r \<Rightarrow> (Inr (show_birthday r), book))
         | _ \<Rightarrow> (Inl (IndexError ''Please provide contact name.''), book)))"

definition birthday_line :: "upcoming \<Rightarrow> string" where
  "birthday_line b =
     u_name b @ '': birthday on '' @ u_birthday b @ '', celebrate on ''
     @ u_congratulation_date b"

definition handle_birthdays_func ::
  "date \<Rightarrow> string list \<times> AddressBook \<Rightarrow> (exn + string) \<times> AddressBook" where
  "handle_birthdays_func today x =
     (case x of (args, book) \<Rightarrow>
        (case get_upcoming_birthdays today book of
           Inl e \<Rightarrow> (Inl e, book)
         | Inr upcoming \<Rightarrow>
             if upcoming = [] then (Inr ''There are no birthdays in the next 7 days.'', book)
             else (Inr (str_join [CHR 0x0A] (map birthday_line upcoming)), book)))"

definition handle_add_contact_func ::
  "string list \<times> AddressBook \<Rightarrow> (exn + string) \<times> AddressBook" where
  "handle_add_contact_func x =
     (case x of (args, book) \<Rightarrow>
        (case args of
           [n, phone] \<Rightarrow> add_contact book n (Some phone)
         | _ \<Rightarrow> (Inl (IndexError ''Please provide contact name and phone number.''), book)))"

definition handle_change_contact_func ::
  "string list \<times> AddressBook \<Rightarrow> (exn + string) \<times> AddressBook" where
  "handle_change_contact_func x =
     (case x of (args, book) \<Rightarrow>
        (case args of
           [n, old_phone, new_phone] \<Rightarrow> change_contact book n old_phone new_phone
         | _ \<Rightarrow>
             (Inl (IndexError
                ''Please provide contact name, old phone number and new phone number.''),
              book)))"

definition handle_show_phone_func ::
  "string list \<times> AddressBook \<Rightarrow> (exn + string) \<times> AddressBook" where
  "handle_show_phone_func x =
     (case x of (args, book) \<Rightarrow>
        (case args of
           [n] \<Rightarrow> (show_phone book n, book)
         | _ \<Rightarrow> (Inl (IndexError ''Please provide contact name.''), book)))"

definition handle_show_all_func :: "AddressBook \<Rightarrow> (exn + string) \<times> AddressBook" where
  "handle_show_all_func book = (Inr (show_all book), book)"

text \<open>The handlers as the program calls them.\<close>

definition handle_add_birthday :: "string list \<Rightarrow> AddressBook \<Rightarrow> string \<times> AddressBook" where
  "handle_add_birthday args book = input_error handle_add_birthday_func (args, book)"

definition handle_show_birthday :: "string list \<Rightarrow> AddressBook \<Rightarrow> string \<times> AddressBook" where
  "handle_show_birthday args book = input_error handle_show_birthday_func (args, book)"

definition handle_birthdays ::
  "date \<Rightarrow> string list \<Rightarrow> AddressBook \<Rightarrow> string \<times> AddressBook" where
  "handle_birthdays today args book = input_error (handle_birthdays_func today) (args, book)"

definition handle_add_contact :: "string list \<Rightarrow> AddressBook \<Rightarrow> string \<times> AddressBook" where
  "handle_add_contact args book = input_error handle_add_contact_func (args, book)"

definition handle_change_contact :: "string list \<Rightarrow> AddressBook \<Rightarrow> string \<times> AddressBook" where
  "handle_change_contact args book = input_error handle_change_contact_func (args, book)"

definition handle_show_phone :: "string list \<Rightarrow> AddressBook \<Rightarrow> string \<times> AddressBook" where
  "handle_show_phone args book = input_error handle_show_phone_func (args, book)"

definition handle_show_all :: "AddressBook \<Rightarrow> string \<times> AddressBook" where
  "handle_show_all book = input_error handle_show_all_func book"

text \<open>
  The seven functions that the program decorates with \<open>input_error\<close>, each as a
  function of the argument list and the book (\<open>handle_show_all\<close> takes the book
  only).
\<close>

definition handler_funcs ::
  "date \<Rightarrow> (string list \<times> AddressBook \<Rightarrow> (exn + string) \<times> AddressBook) list" where
  "handler_funcs today =
     [handle_add_birthday_func, handle_show_birthday_func, handle_birthdays_func today,
      handle_add_contact_func, handle_change_contact_func, handle_show_phone_func,
      (\<lambda>x. handle_show_all_func (snd x))]"

definition is_KeyError :: "exn \<Rightarrow> bool" where
  "is_KeyError e = (case e of KeyError m \<Rightarrow> True | _ \<Rightarrow> False)"

section \<open>The upcoming-birthday rule in the specification's words\<close>

text \<open>
  The specification's steps 1 to 3: the birthday's month and day in the current
  year, advanced by one year when that date is strictly before today; the number
  of days from today to it; and the test that this number is between 0 and 7.
  These follow the specification, not the code, and are compared with the code
  below.
\<close>

definition this_year_birthday :: "date \<Rightarrow> date \<Rightarrow> date" where
  "this_year_birthday today b =
     (if date_less (b\<lparr>year := year today\<rparr>) today then b\<lparr>year := year today + 1\<rparr>
      else b\<lparr>year := year today\<rparr>)"

definition days_until :: "date \<Rightarrow> date \<Rightarrow> int" where
  "days_until today b = int (toordinal (this_year_birthday today b)) - int (toordinal today)"

definition is_upcoming :: "date \<Rightarrow> Record \<Rightarrow> bool" where
  "is_upcoming today r =
     (case birthday r of
        None \<Rightarrow> False
      | Some b \<Rightarrow> 0 \<le> days_until today b \<and> days_until today b \<le> 7)"

text \<open>Step 4: the number of days by which the celebration is moved off a weekend.\<close>

definition weekend_shift :: "date \<Rightarrow> nat" where
  "weekend_shift d = (if weekday d = 5 then 2 else if weekday d = 6 then 1 else 0)"

section \<open>Well-formed books\<close>

text \<open>
  What holds of every book the handlers build from the empty one: no key occurs
  twice, every record is stored under its own name, that name passed the \<open>Name\<close>
  validation, and every birthday is a valid date.
\<close>

definition book_ok :: "AddressBook \<Rightarrow> bool" where
  "book_ok book =
     (distinct (map fst book)
      \<and> (\<forall>kr \<in> set book. name (snd kr) = fst kr \<and> isalpha (fst kr)
            \<and> (\<forall>b. birthday (snd kr) = Some b \<longrightarrow> valid_date b)))"

section \<open>Phone validation\<close>

text \<open>
  Claim C5, as stated: a \<open>Phone\<close> is constructed exactly from the strings of ten
  decimal digits. The text of ten superscript twos (U+00B2) is accepted, since
  \<open>str.isdigit\<close> holds for it, though none of its characters is a decimal digit.
\<close>

theorem Phone_superscript_counterexample:
  "Phone 
      [CHR 0xB2, CHR 0xB2, CHR 0xB2, CHR 0xB2, CHR 0xB2, CHR 0xB2, CHR 0xB2, CHR 0xB2, CHR 0xB2, CHR 0xB2] = Inr 
      [CHR 0xB2, CHR 0xB2, CHR 0xB2, CHR 0xB2, CHR 0xB2, CHR 0xB2, CHR 0xB2, CHR 0xB2, CHR 0xB2, CHR 0xB2]
   \<and> \<not> (isdecimal 
      [CHR 0xB2, CHR 0xB2, CHR 0xB2, CHR 0xB2, CHR 0xB2, CHR 0xB2, CHR 0xB2, CHR 0xB2, CHR 0xB2, CHR 0xB2] \<and> length 
      [CHR 0xB2, CHR 0xB2, CHR 0xB2, CHR 0xB2, CHR 0xB2, CHR 0xB2, CHR 0xB2, CHR 0xB2, CHR 0xB2, CHR 0xB2] = 10)"
  by (simp add: Phone_def isdigit_def isdecimal_def is_digit_char_def is_decimal_char_def)

text \<open>
  Claim C5, amended: constructing a \<open>Phone\<close> from \<open>p\<close> succeeds if and only if \<open>p\<close>
  has exactly ten characters and each of them is a digit in the sense of
  \<open>str.isdigit\<close> (a decimal digit or a superscript digit); on success the value is
  \<open>p\<close>, every other input fails with the \<open>ValidationException\<close>
  \<open>Phone number must be 10 digits\<close>, and every string of ten decimal digits is
  accepted.
\<close>

theorem Phone_accepts_iff:
  "(Phone p = Inr p \<longleftrightarrow> length p = 10 \<and> (\<forall>c \<in> set p. is_digit_char c))
   \<and> (\<forall>v. Phone p = Inr v \<longrightarrow> v = p)
   \<and> (\<not> (length p = 10 \<and> (\<forall>c \<in> set p. is_digit_char c)) \<longrightarrow>
        Phone p = Inl (ValidationException ''Phone number must be 10 digits''))
   \<and> (isdecimal p \<and> length p = 10 \<longrightarrow> Phone p = Inr p)"
  by (auto simp: Phone_def isdigit_def isdecimal_def is_digit_char_def list_all_iff)

theorem Phone_accepts_iff_witness:
  "Phone ''1234567890'' = Inr ''1234567890''
   \<and> Phone ''12345'' = Inl (ValidationException ''Phone number must be 10 digits'')
   \<and> Phone ''12345abcde'' = Inl (ValidationException ''Phone number must be 10 digits'')"
  using Phone_accepts_iff [of "''1234567890''"] Phone_accepts_iff [of "''12345''"]
    Phone_accepts_iff [of "''12345abcde''"]
  by (simp add: is_digit_char_def is_decimal_char_def)

section \<open>Editing a phone\<close>

lemma edit_phone_loop_first:
  "old_phone \<in> set ps \<Longrightarrow>
   \<exists>i < length ps. ps ! i = old_phone \<and> (\<forall>j < i. ps ! j \<noteq> old_phone)
      \<and> edit_phone_loop ps old_phone new_phone = Some (ps[i := new_phone])"
proof (induction ps)
  case Nil
  then show ?case by simp
next
  case (Cons p ps)
  show ?case
  proof (cases "p = old_phone")
    case True
    then show ?thesis by (intro exI[of _ 0]) simp
  next
    case False
    with Cons.prems have "old_phone \<in> set ps" by simp
    from Cons.IH[OF this] obtain i where i: "i < length ps" "ps ! i = old_phone"
      "\<forall>j < i. ps ! j \<noteq> old_phone"
      "edit_phone_loop ps old_phone new_phone = Some (ps[i := new_phone])"
      by blast
    have "\<forall>j < Suc i. (p # ps) ! j \<noteq> old_phone"
      using False i(3) by (simp add: nth_Cons split: nat.splits)
    with i False show ?thesis by (intro exI[of _ "Suc i"]) simp
  qed
qed

text \<open>
  Claim C7: when some phone of the record has the value \<open>old_phone\<close>,
  \<open>edit_phone\<close> succeeds for every \<open>new_phone\<close>, valid or not: the first phone with
  that value (at the index \<open>i\<close>, no earlier one matching) gets the value
  \<open>new_phone\<close> as it is, and nothing else of the record changes.
\<close>

theorem edit_phone_replaces_first:
  assumes "old_phone \<in> set (phones r)"
  shows "\<exists>i < length (phones r). phones r ! i = old_phone
           \<and> (\<forall>j < i. phones r ! j \<noteq> old_phone)
           \<and> edit_phone r old_phone new_phone
               = Inr (r\<lparr>phones := (phones r)[i := new_phone]\<rparr>)"
  using edit_phone_loop_first[OF assms, of new_phone] by (auto simp: edit_phone_def)

text \<open>
  An invalid value is stored: \<open>abc\<close>, which \<open>Phone\<close> refuses, replaces the first
  of the two phones \<open>1234567890\<close>.
\<close>

theorem edit_phone_replaces_first_witness:
  "''1234567890'' \<in> set (phones \<lparr>name = ''Ann'',
       phones = [''0987654321'', ''1234567890'', ''1234567890''], birthday = None\<rparr>)
   \<and> edit_phone \<lparr>name = ''Ann'',
         phones = [''0987654321'', ''1234567890'', ''1234567890''], birthday = None\<rparr>
       ''1234567890'' ''abc''
      = Inr \<lparr>name = ''Ann'',
          phones = [''0987654321'', ''abc'', ''1234567890''], birthday = None\<rparr>
   \<and> Phone ''abc'' = Inl (ValidationException ''Phone number must be 10 digits'')"
proof -
  let ?r = "\<lparr>name = ''Ann'',
    phones = [''0987654321'', ''1234567890'', ''1234567890''], birthday = None\<rparr>"
  have h: "''1234567890'' \<in> set (phones ?r)" by simp
  from edit_phone_replaces_first[OF h, of "''abc''"] obtain i where
    i: "i < length (phones ?r)" "phones ?r ! i = ''1234567890''"
      "\<forall>j < i. phones ?r ! j \<noteq> ''1234567890''"
      "edit_phone ?r ''1234567890'' ''abc'' = Inr (?r\<lparr>phones := (phones ?r)[i := ''abc'']\<rparr>)"
    by blast
  have "i < 3" using i(1) by simp
  then consider "i = 0" | "i = 1" | "i = 2" by linarith
  then have "i = 1"
  proof cases
    case 1 with i(2) show ?thesis by simp
  next
    case 2 then show ?thesis .
  next
    case 3
    with i(3)[THEN spec, of 1] show ?thesis by simp
  qed
  with i(4) h show ?thesis
    by (simp add: Phone_def isdigit_def is_digit_char_def is_decimal_char_def)
qed

section \<open>Adding a contact\<close>

lemma dict_set_absent:
  "map_of book n = None \<Longrightarrow> dict_set book n r = book @ [(n, r)]"
  by (induction book) (auto split: if_splits)


lemma map_of_dict_set:
  "map_of (dict_set book n r) = (map_of book)(n \<mapsto> r)"
  by (induction book) (auto simp: fun_eq_iff)




text \<open>
  Claim C10, amended: for every name of letters only that has no record, and every
  phone that is not empty and that \<open>Phone\<close> refuses, \<open>add_contact\<close> raises the
  \<open>ValidationException\<close> \<open>Phone number must be 10 digits\<close>, and the book is left
  with the new record of that name, its phone list empty, appended.
\<close>

theorem add_contact_not_atomic:
  assumes "find_book book n = None" and "isalpha n" and "p \<noteq> []"
    and "\<not> (isdigit p \<and> length p = 10)"
  shows "add_contact book n (Some p)
           = (Inl (ValidationException ''Phone number must be 10 digits''),
              book @ [(n, \<lparr>name = n, phones = [], birthday = None\<rparr>)])
         \<and> find_book (snd (add_contact book n (Some p))) n
           = Some \<lparr>name = n, phones = [], birthday = None\<rparr>"
  using assms
  by (auto simp: add_contact_def find_book_def Record_init_def Name_def add_record_def
      add_phone_def Phone_def dict_set_absent map_add_def split: option.splits)

text \<open>
  Claim C10, as stated for every absent name and every phone that is not ten
  decimal digits: with the name \<open>Ann1\<close> and the phone \<open>123\<close> the exception is the
  one of \<open>Name\<close> and no record is inserted; with the name \<open>Ann\<close> and the empty
  phone nothing is raised.
\<close>

theorem add_contact_not_atomic_counterexample:
  "find_book [] ''Ann1'' = None
   \<and> \<not> (isdecimal ''123'' \<and> length ''123'' = 10)
   \<and> add_contact [] ''Ann1'' (Some ''123'')
       = (Inl (ValidationException ''Name must contain only letters''), [])
   \<and> find_book [] ''Ann'' = None
   \<and> \<not> (isdecimal [] \<and> length ([] :: string) = 10)
   \<and> add_contact [] ''Ann'' (Some [])
       = (Inr ''Contact added.'', [(''Ann'', \<lparr>name = ''Ann'', phones = [], birthday = None\<rparr>)])"
  by (simp add: add_contact_def find_book_def Record_init_def Name_def isalpha_def
      is_alpha_char_def add_record_def isdecimal_def)

text \<open>
  The name \<open>Ann\<close> with the phone \<open>123\<close> in the empty book.
\<close>

theorem add_contact_not_atomic_witness:
  "find_book [] ''Ann'' = None \<and> isalpha ''Ann'' \<and> ''123'' \<noteq> []
   \<and> \<not> (isdigit ''123'' \<and> length ''123'' = 10)
   \<and> add_contact [] ''Ann'' (Some ''123'')
       = (Inl (ValidationException ''Phone number must be 10 digits''),
          [(''Ann'', \<lparr>name = ''Ann'', phones = [], birthday = None\<rparr>)])"
proof -
  have h: "find_book [] ''Ann'' = None" "isalpha ''Ann''" "''123'' \<noteq> []"
    "\<not> (isdigit ''123'' \<and> length ''123'' = 10)"
    by (simp_all add: find_book_def isalpha_def is_alpha_char_def)
  from add_contact_not_atomic[OF h] h show ?thesis by simp
qed

section \<open>The handler boundary\<close>

lemma date_new_raises: "date_new y m d = Inl e \<Longrightarrow> \<not> is_KeyError e"
  by (auto simp: date_new_def is_KeyError_def split: if_splits)

lemma add_days_raises: "add_days d n = Inl e \<Longrightarrow> \<not> is_KeyError e"
  by (induction n arbitrary: d) (auto simp: is_KeyError_def split: if_splits)

lemma shift_weekend_raises: "shift_weekend c = Inl e \<Longrightarrow> \<not> is_KeyError e"
  unfolding shift_weekend_def
  by (auto dest: add_days_raises simp del: add_days.simps split: if_splits)

lemma upcoming_entry_raises: "upcoming_entry today n b = Inl e \<Longrightarrow> \<not> is_KeyError e"
  unfolding upcoming_entry_def replace_year_def
  by (auto dest: date_new_raises shift_weekend_raises split: sum.splits if_splits)

lemma upcoming_loop_raises: "upcoming_loop today rs acc = Inl e \<Longrightarrow> \<not> is_KeyError e"
  by (induction rs arbitrary: acc)
    (auto dest: upcoming_entry_raises split: option.splits sum.splits)

lemma add_contact_raises: "fst (add_contact book n phone) = Inl e \<Longrightarrow> \<not> is_KeyError e"
  by (auto simp: add_contact_def Record_init_def Name_def add_phone_def Phone_def
      is_KeyError_def split: option.splits sum.splits if_splits)

lemma change_contact_raises:
  "fst (change_contact book n old_phone new_phone) = Inl e \<Longrightarrow>
   e = KeyError ''Contact not found.'' \<or> \<not> is_KeyError e"
  by (auto simp: change_contact_def edit_phone_def is_KeyError_def
      split: option.splits sum.splits)

lemma handle_add_birthday_raises:
  "fst (handle_add_birthday_func (args, book)) = Inl e \<Longrightarrow>
   e = KeyError ''Contact not found.'' \<or> \<not> is_KeyError e"
  by (auto simp: handle_add_birthday_func_def add_birthday_def Birthday_def is_KeyError_def
      split: list.splits option.splits sum.splits)

lemma handle_show_birthday_raises:
  "fst (handle_show_birthday_func (args, book)) = Inl e \<Longrightarrow>
   e = KeyError ''Contact not found.'' \<or> \<not> is_KeyError e"
  by (auto simp: handle_show_birthday_func_def is_KeyError_def
      split: list.splits option.splits)

lemma handle_birthdays_raises:
  "fst (handle_birthdays_func today (args, book)) = Inl e \<Longrightarrow> \<not> is_KeyError e"
  by (auto simp: handle_birthdays_func_def get_upcoming_birthdays_def
      dest: upcoming_loop_raises split: sum.splits if_splits)

lemma handle_add_contact_raises:
  "fst (handle_add_contact_func (args, book)) = Inl e \<Longrightarrow> \<not> is_KeyError e"
  by (auto simp: handle_add_contact_func_def is_KeyError_def dest: add_contact_raises
      split: list.splits)

lemma handle_change_contact_raises:
  "fst (handle_change_contact_func (args, book)) = Inl e \<Longrightarrow>
   e = KeyError ''Contact not found.'' \<or> \<not> is_KeyError e"
  by (auto simp: handle_change_contact_func_def is_KeyError_def dest: change_contact_raises
      split: list.splits)

lemma handle_show_phone_raises:
  "fst (handle_show_phone_func (args, book)) = Inl e \<Longrightarrow>
   e = KeyError ''Contact not found.'' \<or> \<not> is_KeyError e"
  by (auto simp: handle_show_phone_func_def show_phone_def is_KeyError_def
      split: list.splits option.splits)

lemma handler_raises:
  assumes "f \<in> set (handler_funcs today)" and "fst (f x) = Inl e"
  shows "e = KeyError ''Contact not found.'' \<or> \<not> is_KeyError e"
proof -
  obtain args book where x: "x = (args, book)" by (cases x)
  from assms(1) consider
      "f = handle_add_birthday_func" | "f = handle_show_birthday_func"
    | "f = handle_birthdays_func today" | "f = handle_add_contact_func"
    | "f = handle_change_contact_func" | "f = handle_show_phone_func"
    | "f = (\<lambda>x. handle_show_all_func (snd x))"
    unfolding handler_funcs_def by auto
  then show ?thesis
  proof cases
    case 1
    with assms(2) x show ?thesis using handle_add_birthday_raises by blast
  next
    case 2
    with assms(2) x show ?thesis using handle_show_birthday_raises by blast
  next
    case 3
    with assms(2) x show ?thesis using handle_birthdays_raises by blast
  next
    case 4
    with assms(2) x show ?thesis using handle_add_contact_raises by blast
  next
    case 5
    with assms(2) x show ?thesis using handle_change_contact_raises by blast
  next
    case 6
    with assms(2) x show ?thesis using handle_show_phone_raises by blast
  next
    case 7
    with assms(2) show ?thesis by (simp add: handle_show_all_func_def)
  qed
qed

text \<open>
  Claim C9 fails on the code for the not-found error: for the name \<open>Bob\<close> in the
  empty book \<open>show_phone\<close> raises \<open>KeyError('Contact not found.')\<close>, whose message
  text is \<open>Contact not found.\<close>, and \<open>handle_show_phone\<close> returns that text between
  two apostrophes, because \<open>str\<close> of a \<open>KeyError\<close> is the \<open>repr\<close> of its argument.
  The argument-count error of the same handler is returned as its plain text.
\<close>

theorem handle_show_phone_quotes_not_found:
  "handle_show_phone_func ([''Bob''], []) = (Inl (KeyError ''Contact not found.''), [])
   \<and> exn_message (KeyError ''Contact not found.'') = ''Contact not found.''
   \<and> handle_show_phone [''Bob''] [] = (CHR 0x27 # ''Contact not found.'' @ [CHR 0x27], [])
   \<and> fst (handle_show_phone [''Bob''] []) \<noteq> ''Contact not found.''
   \<and> handle_show_phone [] [] = (''Please provide contact name.'', [])"
  by (simp add: handle_show_phone_def handle_show_phone_func_def show_phone_def find_book_def
      input_error_def exn_str_def py_repr_def exn_message_def)

text \<open>
  What the handler boundary does on the code as it is: for every function that the
  program wraps with \<open>input_error\<close>, every argument list and every book, the
  wrapped handler returns a string and no exception passes it. A result of the
  function is returned as it is; an exception \<open>e\<close> is returned as \<open>str(e)\<close>. That
  is the message text for every exception the handlers raise except the
  \<open>KeyError\<close>, which is always \<open>KeyError('Contact not found.')\<close>.
\<close>

theorem handlers_catch_all:
  assumes "f \<in> set (handler_funcs today)"
  shows "(\<forall>v. fst (f x) = Inr v \<longrightarrow> input_error f x = (v, snd (f x)))
       \<and> (\<forall>e. fst (f x) = Inl e \<longrightarrow>
            input_error f x = (exn_str e, snd (f x))
            \<and> (if is_KeyError e
               then e = KeyError ''Contact not found.''
                 \<and> exn_str e = CHR 0x27 # ''Contact not found.'' @ [CHR 0x27]
               else exn_str e = exn_message e))"
proof (intro conjI allI impI)
  fix v assume "fst (f x) = Inr v"
  then show "input_error f x = (v, snd (f x))"
    by (cases "f x") (simp add: input_error_def)
next
  fix e assume e: "fst (f x) = Inl e"
  then show "input_error f x = (exn_str e, snd (f x))"
    by (cases "f x") (simp add: input_error_def)
  from handler_raises[OF assms e]
  show "if is_KeyError e
        then e = KeyError ''Contact not found.''
          \<and> exn_str e = CHR 0x27 # ''Contact not found.'' @ [CHR 0x27]
        else exn_str e = exn_message e"
    by (cases e) (auto simp: is_KeyError_def exn_str_def py_repr_def exn_message_def)
qed

text \<open>
  \<open>handle_show_phone\<close> with an unknown name, with no argument, and with a known
  name.
\<close>

theorem handlers_catch_all_witness:
  "handle_show_phone_func \<in> set (handler_funcs \<lparr>year = 2024, month = 1, day = 1\<rparr>)
   \<and> input_error handle_show_phone_func ([''Bob''], [])
       = (CHR 0x27 # ''Contact not found.'' @ [CHR 0x27], [])
   \<and> input_error handle_show_phone_func ([], [])
       = (''Please provide contact name.'', [])
   \<and> input_error handle_show_phone_func
         ([''Ann''], [(''Ann'', \<lparr>name = ''Ann'', phones = [''1234567890''], birthday = None\<rparr>)])
       = (''1234567890'',
          [(''Ann'', \<lparr>name = ''Ann'', phones = [''1234567890''], birthday = None\<rparr>)])"
proof -
  let ?t = "\<lparr>year = 2024, month = 1, day = 1\<rparr>"
  let ?b = "[(''Ann'', \<lparr>name = ''Ann'', phones = [''1234567890''], birthday = None\<rparr>)]"
  have h: "handle_show_phone_func \<in> set (handler_funcs ?t)"
    by (simp add: handler_funcs_def)
  have a: "handle_show_phone_func ([''Bob''], []) = (Inl (KeyError ''Contact not found.''), [])"
    by (simp add: handle_show_phone_func_def show_phone_def find_book_def)
  have b: "handle_show_phone_func ([], [])
             = (Inl (IndexError ''Please provide contact name.''), [])"
    by (simp add: handle_show_phone_func_def)
  have c: "handle_show_phone_func ([''Ann''], ?b) = (Inr ''1234567890'', ?b)"
    by (simp add: handle_show_phone_func_def show_phone_def find_book_def)
  from handlers_catch_all[OF h, of "([''Bob''], [])"] a
  have 1: "input_error handle_show_phone_func ([''Bob''], [])
       = (CHR 0x27 # ''Contact not found.'' @ [CHR 0x27], [])"
    by (simp add: is_KeyError_def)
  from handlers_catch_all[OF h, of "([], [])"] b
  have 2: "input_error handle_show_phone_func ([], []) = (''Please provide contact name.'', [])"
    by (simp add: is_KeyError_def exn_message_def)
  from handlers_catch_all[OF h, of "([''Ann''], ?b)"] c
  have 3: "input_error handle_show_phone_func ([''Ann''], ?b) = (''1234567890'', ?b)"
    by simp
  from h 1 2 3 show ?thesis by simp
qed

section \<open>Formatting and parsing a birthday\<close>

lemma of_char_digit_char: "n < 10 \<Longrightarrow> (of_char (digit_char n) :: nat) = 48 + n"
  by (simp add: digit_char_def)

lemma digit_char_eq_iff:
  "n < 10 \<Longrightarrow> digit_char n = c \<longleftrightarrow> 48 + n = (of_char c :: nat)"
  using of_char_digit_char[of n] by (metis of_char_eq_iff)

lemma digit_facts:
  assumes "n < 10"
  shows "is_decimal_char (digit_char n)" "digit_val (digit_char n) = n"
    "in_range lo hi (digit_char n) \<longleftrightarrow> (of_char lo :: nat) \<le> 48 + n \<and> 48 + n \<le> (of_char hi :: nat)"
  using assms by (simp_all add: is_decimal_char_def digit_val_def in_range_def of_char_digit_char)

lemma four_digits_value:
  assumes "y < 10000"
  shows "1000 * (y div 1000) + 100 * (y div 100 mod 10) + 10 * (y div 10 mod 10) + y mod 10
         = (y::nat)"
proof -
  define a where "a = y div 10"
  define b where "b = a div 10"
  define c where "c = b div 10"
  have 1: "y = 10 * a + y mod 10" by (simp add: a_def)
  have 2: "a = 10 * b + a mod 10" by (simp add: b_def)
  have 3: "b = 10 * c + b mod 10" by (simp add: c_def)
  have 4: "y div 100 = b" by (simp add: a_def b_def div_mult2_eq[symmetric])
  have 5: "y div 1000 = c" by (simp add: a_def b_def c_def div_mult2_eq[symmetric])
  show ?thesis unfolding 4 5 using 1 2 3 by (simp add: a_def[symmetric])
qed

text \<open>From 1000 on, the decimal rendering of a year has four digits.\<close>

lemma dec_four_digits:
  assumes "1000 \<le> y" "y < 10000"
  shows "dec y = [digit_char (y div 1000), digit_char (y div 100 mod 10),
                  digit_char (y div 10 mod 10), digit_char (y mod 10)]"
proof -
  from div_le_mono[OF assms(1), of 10] have a: "\<not> y div 10 < 10" by simp
  from div_le_mono[OF assms(1), of 100] have b: "\<not> y div 100 < 10" by simp
  from assms(1) have c: "\<not> y < 10" by simp
  from assms(2) have d: "y div 1000 < 10" by (simp add: less_mult_imp_div_less)
  have e: "y div 10 div 10 = y div 100" "y div 100 div 10 = y div 1000"
    by (simp_all add: div_mult2_eq[symmetric])
  have 1: "dec y = dec (y div 10) @ [digit_char (y mod 10)]"
    by (subst dec.simps) (simp add: c)
  have 2: "dec (y div 10) = dec (y div 100) @ [digit_char (y div 10 mod 10)]"
    by (subst dec.simps) (simp add: a e)
  have 3: "dec (y div 100) = dec (y div 1000) @ [digit_char (y div 100 mod 10)]"
    by (subst dec.simps) (simp add: b e)
  have 4: "dec (y div 1000) = [digit_char (y div 1000)]"
    by (subst dec.simps) (simp add: d)
  show ?thesis by (simp add: 1 2 3 4)
qed

lemma re_Y_dec: "1000 \<le> y \<Longrightarrow> y < 10000 \<Longrightarrow> re_Y (dec y) = [(y, [])]"
  by (simp add: dec_four_digits digit_facts four_digits_value less_mult_imp_div_less)

lemma re_m_pad2:
  assumes "1 \<le> m" "m \<le> 12"
  shows "re_m (pad2 m @ CHR ''.'' # r)
    = (m, CHR ''.'' # r) # (if 10 \<le> m then [(1, digit_char (m mod 10) # CHR ''.'' # r)] else [])"
proof -
  consider "m < 10" | "10 \<le> m" by linarith
  then show ?thesis
  proof cases
    case 1
    with assms show ?thesis
      by (simp add: re_m_def pad2_def digit_facts digit_char_eq_iff)
  next
    case 2
    then obtain k where k: "m = 10 + k" using le_Suc_ex by blast
    with assms have "k \<le> 2" by simp
    with k show ?thesis
      by (simp add: re_m_def pad2_def digit_facts digit_char_eq_iff)
  qed
qed

lemma two_digits: "k < 10 \<Longrightarrow> (10 * a + k) div 10 = a \<and> (10 * a + k) mod 10 = (k::nat)"
  by simp

lemma re_d_pad2:
  assumes "1 \<le> d" "d \<le> 31"
  shows "re_d (pad2 d @ CHR ''.'' # r)
    = (d, CHR ''.'' # r)
      # (if 10 \<le> d then [(d div 10, digit_char (d mod 10) # CHR ''.'' # r)] else [])"
proof -
  consider "d < 10" | "10 \<le> d" "d < 20" | "20 \<le> d" "d < 30" | "30 \<le> d" by linarith
  then show ?thesis
  proof cases
    case 1
    with assms show ?thesis
      by (simp add: re_d_def pad2_def digit_facts digit_char_eq_iff)
  next
    case 2
    then obtain k where k: "d = 10 + k" using le_Suc_ex by blast
    with 2 have k10: "k < 10" by simp
    from two_digits[OF k10, of 1] have "(10 + k) div 10 = 1" "(10 + k) mod 10 = k" by simp_all
    with k k10 show ?thesis
      by (simp add: re_d_def pad2_def digit_facts digit_char_eq_iff)
  next
    case 3
    then obtain k where k: "d = 20 + k" using le_Suc_ex by blast
    with 3 have k10: "k < 10" by simp
    from two_digits[OF k10, of 2] have "(20 + k) div 10 = 2" "(20 + k) mod 10 = k" by simp_all
    with k k10 show ?thesis
      by (simp add: re_d_def pad2_def digit_facts digit_char_eq_iff)
  next
    case 4
    then obtain k where k: "d = 30 + k" using le_Suc_ex by blast
    with assms have k1: "k \<le> 1" by simp
    then have k10: "k < 10" by simp
    from two_digits[OF k10, of 3] have "(30 + k) div 10 = 3" "(30 + k) mod 10 = k" by simp_all
    with k k1 show ?thesis
      by (simp add: re_d_def pad2_def digit_facts digit_char_eq_iff)
  qed
qed


lemma days_in_month_le_31: "1 \<le> m \<Longrightarrow> m \<le> 12 \<Longrightarrow> days_in_month y m \<le> 31"
proof -
  assume "1 \<le> m" "m \<le> 12"
  then have "m - 1 < length DAYS_IN_MONTH" by (simp add: DAYS_IN_MONTH_def)
  then have "DAYS_IN_MONTH ! (m - 1) \<in> set DAYS_IN_MONTH" by (rule nth_mem)
  then have "DAYS_IN_MONTH ! (m - 1) \<le> 31" by (auto simp: DAYS_IN_MONTH_def)
  then show ?thesis by (simp add: days_in_month_def)
qed

lemma re_match_strftime:
  assumes "1 \<le> d" "d \<le> 31" "1 \<le> m" "m \<le> 12" "1000 \<le> y" "y < 10000"
  shows "re_match (pad2 d @ CHR ''.'' # pad2 m @ CHR ''.'' # dec y) = [(d, m, y, [])]"
  unfolding re_match_def
  by (simp add: re_d_pad2[OF assms(1,2)] re_m_pad2[OF assms(3,4)] re_Y_dec[OF assms(5,6)]
      digit_char_eq_iff)

lemma date_new_valid: "date_new y m d = Inr dt \<Longrightarrow> valid_date dt \<and> dt = \<lparr>year = y, month = m, day = d\<rparr>"
  by (auto simp: date_new_def valid_date_def split: if_splits)

lemma date_new_of_valid: "valid_date dt \<Longrightarrow> date_new (year dt) (month dt) (day dt) = Inr dt"
  by (simp add: date_new_def valid_date_def)

lemma strptime_strftime:
  "valid_date d \<Longrightarrow> 1000 \<le> year d \<Longrightarrow> strptime_dmY (strftime_dmY d) = Some d"
proof -
  assume v: "valid_date d" and y: "1000 \<le> year d"
  then have r: "1 \<le> day d" "day d \<le> 31" "1 \<le> month d" "month d \<le> 12"
    "1000 \<le> year d" "year d < 10000"
    using days_in_month_le_31[of "month d" "year d"]
    by (auto simp: valid_date_def MAXYEAR_def)
  show ?thesis
    unfolding strptime_dmY_def strftime_dmY_def
    by (simp add: re_match_strftime[OF r] date_new_of_valid[OF v])
qed

lemma strptime_valid: "strptime_dmY s = Some d \<Longrightarrow> valid_date d"
  by (auto simp: strptime_dmY_def dest: date_new_valid split: list.splits if_splits sum.splits)

text \<open>
  Claim C8 fails on the code for the years 1 to 999: the text \<open>01.01.0999\<close> is
  accepted as a \<open>Birthday\<close>, \<open>show_birthday\<close> shows its date as \<open>01.01.999\<close>, and
  that text is refused as a \<open>Birthday\<close>, since \<open>%Y\<close> is parsed from exactly four
  digits.
\<close>

theorem show_birthday_below_1000_not_parsed:
  "Birthday ''01.01.0999'' = Inr \<lparr>year = 999, month = 1, day = 1\<rparr>
   \<and> show_birthday \<lparr>name = ''Ann'', phones = [],
        birthday = Some \<lparr>year = 999, month = 1, day = 1\<rparr>\<rparr> = ''01.01.999''
   \<and> Birthday ''01.01.999'' = Inl (ValidationException ''Invalid date format. Use DD.MM.YYYY'')"
  by (simp add: Birthday_def strptime_dmY_def re_match_def re_d_def re_m_def
      is_decimal_char_def in_range_def digit_val_def date_new_def MAXYEAR_def
      days_in_month_def is_leap_def DAYS_IN_MONTH_def show_birthday_def strftime_dmY_def
      pad2_def dec.simps digit_char_eq_iff)

text \<open>
  From the year 1000 on the round trip holds: the date of every \<open>Birthday\<close> that
  was constructed is a valid calendar date, and when its year is at least 1000,
  the text that \<open>show_birthday\<close> gives for it parses as a \<open>Birthday\<close> to the same
  date.
\<close>

theorem Birthday_roundtrip_from_1000:
  assumes "Birthday s = Inr d" and "1000 \<le> year d"
  shows "valid_date d
       \<and> show_birthday (r\<lparr>birthday := Some d\<rparr>) = strftime_dmY d
       \<and> Birthday (strftime_dmY d) = Inr d"
proof -
  from assms(1) have "strptime_dmY s = Some d"
    by (simp add: Birthday_def split: option.splits)
  then have v: "valid_date d" by (rule strptime_valid)
  with strptime_strftime[OF v assms(2)] show ?thesis
    by (simp add: Birthday_def show_birthday_def)
qed

text \<open>
  The text \<open>1.2.2001\<close> is accepted; its date is shown as \<open>01.02.2001\<close>, which
  parses to the same date.
\<close>

theorem Birthday_roundtrip_from_1000_witness:
  "Birthday ''1.2.2001'' = Inr \<lparr>year = 2001, month = 2, day = 1\<rparr>
   \<and> show_birthday \<lparr>name = ''Ann'', phones = [],
        birthday = Some \<lparr>year = 2001, month = 2, day = 1\<rparr>\<rparr> = ''01.02.2001''
   \<and> Birthday ''01.02.2001'' = Inr \<lparr>year = 2001, month = 2, day = 1\<rparr>"
proof -
  have b: "Birthday ''1.2.2001'' = Inr \<lparr>year = 2001, month = 2, day = 1\<rparr>"
    by (simp add: Birthday_def strptime_dmY_def re_match_def re_d_def re_m_def
        is_decimal_char_def in_range_def digit_val_def date_new_def MAXYEAR_def
        days_in_month_def is_leap_def DAYS_IN_MONTH_def)
  have y: "1000 \<le> year \<lparr>year = 2001, month = 2, day = 1\<rparr>" by simp
  have f: "strftime_dmY \<lparr>year = 2001, month = 2, day = 1\<rparr> = ''01.02.2001''"
    by (simp add: strftime_dmY_def pad2_def dec.simps digit_char_eq_iff)
  from Birthday_roundtrip_from_1000[OF b y, of "\<lparr>name = ''Ann'', phones = [], birthday = None\<rparr>"]
    b f
  show ?thesis by simp
qed

section \<open>Calendar arithmetic\<close>

text \<open>
  One step of the calendar adds one to the ordinal, so \<open>add_days d n\<close> is the date
  \<open>n\<close> days after \<open>d\<close>.
\<close>

lemma days_before_year_Suc:
  assumes "1 \<le> y"
  shows "days_before_year (Suc y) = days_before_year y + 365 + (if is_leap y then 1 else 0)"
proof -
  obtain a where a: "y = Suc a" using assms by (cases y) auto
  have le: "a div 100 \<le> a div 4" by (rule div_le_mono2) simp_all
  have m100: "Suc a mod 100 = 0 \<Longrightarrow> Suc a mod 4 = 0"
    using mod_mod_cancel[of 4 100 "Suc a"] by simp
  have m400: "Suc a mod 400 = 0 \<Longrightarrow> Suc a mod 100 = 0"
    using mod_mod_cancel[of 100 400 "Suc a"] by simp
  define q4 where "q4 = a div 4"
  define q100 where "q100 = a div 100"
  define q400 where "q400 = a div 400"
  have d4: "Suc a div 4 = (if Suc a mod 4 = 0 then Suc q4 else q4)"
    unfolding q4_def by (rule div_Suc)
  have d100: "Suc a div 100 = (if Suc a mod 100 = 0 then Suc q100 else q100)"
    unfolding q100_def by (rule div_Suc)
  have d400: "Suc a div 400 = (if Suc a mod 400 = 0 then Suc q400 else q400)"
    unfolding q400_def by (rule div_Suc)
  have l: "days_before_year (Suc (Suc a))
         = Suc a * 365 + Suc a div 4 + Suc a div 400 - Suc a div 100"
    by (simp add: days_before_year_def)
  have r: "days_before_year (Suc a) = a * 365 + q4 + q400 - q100"
    by (simp add: days_before_year_def q4_def q100_def q400_def)
  have le': "q100 \<le> q4" using le by (simp add: q4_def q100_def)
  show ?thesis
    unfolding a is_leap_def l r d4 d100 d400
    using le' m100 m400 by (auto split: if_splits)
qed

lemma days_before_month_Suc:
  assumes "1 \<le> m" "m < 12"
  shows "days_before_month y (Suc m) = days_before_month y m + days_in_month y m"
proof -
  obtain i where i: "m = Suc i" using assms by (cases m) auto
  with assms have il: "i < length DAYS_IN_MONTH" by (simp add: DAYS_IN_MONTH_def)
  have t: "take (Suc i) DAYS_IN_MONTH = take i DAYS_IN_MONTH @ [DAYS_IN_MONTH ! i]"
    by (rule take_Suc_conv_app_nth[OF il])
  have f: "DAYS_IN_MONTH ! 1 = 28" by (simp add: DAYS_IN_MONTH_def)
  show ?thesis
    unfolding days_before_month_def days_in_month_def i
    using t f by (auto simp del: take_Suc_conv_app_nth)
qed

lemma days_before_month_1: "days_before_month y (Suc 0) = 0"
  by (simp add: days_before_month_def)

lemma days_before_month_12: "days_before_month y 12 = 334 + (if is_leap y then 1 else 0)"
  by (simp add: days_before_month_def DAYS_IN_MONTH_def)

lemma days_in_month_12: "days_in_month y 12 = 31"
  by (simp add: days_in_month_def DAYS_IN_MONTH_def)

lemma days_in_month_pos: "1 \<le> m \<Longrightarrow> m \<le> 12 \<Longrightarrow> 28 \<le> days_in_month y m"
proof -
  assume "1 \<le> m" "m \<le> 12"
  then have "m - 1 < length DAYS_IN_MONTH" by (simp add: DAYS_IN_MONTH_def)
  then have "DAYS_IN_MONTH ! (m - 1) \<in> set DAYS_IN_MONTH" by (rule nth_mem)
  then have "28 \<le> DAYS_IN_MONTH ! (m - 1)" by (auto simp: DAYS_IN_MONTH_def)
  then show ?thesis by (simp add: days_in_month_def)
qed

lemma toordinal_next_day:
  assumes "valid_date d"
  shows "toordinal (next_day d) = toordinal d + 1"
proof -
  from assms have v: "1 \<le> year d" "1 \<le> month d" "month d \<le> 12" "1 \<le> day d"
    "day d \<le> days_in_month (year d) (month d)"
    by (simp_all add: valid_date_def)
  consider "day d < days_in_month (year d) (month d)"
    | "day d = days_in_month (year d) (month d)" "month d < 12"
    | "day d = days_in_month (year d) (month d)" "month d = 12"
    using v by linarith
  then show ?thesis
  proof cases
    case 1
    then show ?thesis by (simp add: next_day_def toordinal_def)
  next
    case 2
    then show ?thesis
      using days_before_month_Suc[OF v(2) 2(2), of "year d"]
      by (simp add: next_day_def toordinal_def)
  next
    case 3
    then show ?thesis
      using days_before_year_Suc[OF v(1)]
      by (simp add: next_day_def toordinal_def days_before_month_1 days_before_month_12
          days_in_month_12)
  qed
qed

lemma valid_next_day:
  assumes "valid_date d" "year (next_day d) \<le> MAXYEAR"
  shows "valid_date (next_day d)"
proof -
  from assms(1) have v: "1 \<le> year d" "year d \<le> MAXYEAR" "1 \<le> month d" "month d \<le> 12"
    "1 \<le> day d" "day d \<le> days_in_month (year d) (month d)"
    by (simp_all add: valid_date_def)
  consider "day d < days_in_month (year d) (month d)"
    | "\<not> day d < days_in_month (year d) (month d)" "month d < 12"
    | "\<not> day d < days_in_month (year d) (month d)" "month d = 12"
    using v by linarith
  then show ?thesis
  proof cases
    case 1
    with v show ?thesis by (simp add: next_day_def valid_date_def)
  next
    case 2
    with v days_in_month_pos[of "month d + 1" "year d"] show ?thesis
      by (simp add: next_day_def valid_date_def)
  next
    case 3
    with v assms(2) days_in_month_pos[of 1 "year d + 1"] show ?thesis
      by (simp add: next_day_def valid_date_def)
  qed
qed

lemma add_days_ordinal:
  "valid_date d \<Longrightarrow> add_days d n = Inr c \<Longrightarrow> valid_date c \<and> toordinal c = toordinal d + n"
proof (induction n arbitrary: d)
  case 0
  then show ?case by simp
next
  case (Suc n)
  from Suc.prems(2) have y: "year (next_day d) \<le> MAXYEAR" and r: "add_days (next_day d) n = Inr c"
    by (auto split: if_splits)
  from Suc.IH[OF valid_next_day[OF Suc.prems(1) y] r] toordinal_next_day[OF Suc.prems(1)]
  show ?case by simp
qed

section \<open>Upcoming birthdays\<close>

lemma replace_year_eq:
  "replace_year b y = Inr t \<Longrightarrow> valid_date t \<and> t = b\<lparr>year := y\<rparr>"
  by (auto simp: replace_year_def dest!: date_new_valid)

lemma shift_weekend_ordinal:
  assumes "valid_date t" "shift_weekend t = Inr c"
  shows "valid_date c \<and> toordinal c = toordinal t + weekend_shift t"
  using assms add_days_ordinal[OF assms(1), of 2 c] add_days_ordinal[OF assms(1), of 1 c]
  by (auto simp: shift_weekend_def weekend_shift_def simp del: add_days.simps split: if_splits)

text \<open>What one pass of the loop body does, in the specification's terms.\<close>

lemma upcoming_entry_Some:
  assumes "upcoming_entry today n b = Inr (Some e)"
  shows "valid_date (this_year_birthday today b)
       \<and> 0 \<le> days_until today b \<and> days_until today b \<le> 7
       \<and> (\<exists>c. valid_date c
             \<and> toordinal c = toordinal (this_year_birthday today b)
                 + weekend_shift (this_year_birthday today b)
             \<and> e = \<lparr>u_name = n, u_birthday = strftime_dmY c,
                     u_congratulation_date = strftime_Ymd c\<rparr>)"
proof -
  from assms obtain t0 where t0: "replace_year b (year today) = Inr t0"
    by (auto simp: upcoming_entry_def split: sum.splits)
  from replace_year_eq[OF t0] have t0e: "t0 = b\<lparr>year := year today\<rparr>" "valid_date t0" by blast+
  from assms t0 obtain t where
    t: "(if date_less t0 today then replace_year t0 (year today + 1) else Inr t0) = Inr t"
    by (auto simp: upcoming_entry_def split: sum.splits)
  have te: "t = this_year_birthday today b \<and> valid_date t"
  proof (cases "date_less t0 today")
    case True
    with t have "replace_year t0 (year today + 1) = Inr t" by simp
    from replace_year_eq[OF this] True t0e show ?thesis
      by (auto simp: this_year_birthday_def)
  next
    case False
    with t t0e show ?thesis by (auto simp: this_year_birthday_def)
  qed
  from assms t0 t have in7: "0 \<le> days_between t today \<and> days_between t today \<le> 7"
    by (auto simp: upcoming_entry_def split: sum.splits if_splits)
  with assms t0 t obtain c where c: "shift_weekend t = Inr c"
    and e: "e = \<lparr>u_name = n, u_birthday = strftime_dmY c,
                     u_congratulation_date = strftime_Ymd c\<rparr>"
    by (auto simp: upcoming_entry_def split: sum.splits if_splits)
  from shift_weekend_ordinal[OF _ c] te have "valid_date c"
    "toordinal c = toordinal t + weekend_shift t" by blast+
  with te in7 e show ?thesis by (auto simp: days_until_def days_between_def)
qed

lemma upcoming_entry_None:
  assumes "upcoming_entry today n b = Inr None"
  shows "\<not> (0 \<le> days_until today b \<and> days_until today b \<le> 7)"
proof -
  from assms obtain t0 where t0: "replace_year b (year today) = Inr t0"
    by (auto simp: upcoming_entry_def split: sum.splits)
  from replace_year_eq[OF t0] have t0e: "t0 = b\<lparr>year := year today\<rparr>" "valid_date t0" by blast+
  from assms t0 obtain t where
    t: "(if date_less t0 today then replace_year t0 (year today + 1) else Inr t0) = Inr t"
    by (auto simp: upcoming_entry_def split: sum.splits)
  have te: "t = this_year_birthday today b"
  proof (cases "date_less t0 today")
    case True
    with t have "replace_year t0 (year today + 1) = Inr t" by simp
    from replace_year_eq[OF this] True t0e show ?thesis
      by (auto simp: this_year_birthday_def)
  next
    case False
    with t t0e show ?thesis by (auto simp: this_year_birthday_def)
  qed
  from assms t0 t have "\<not> (0 \<le> days_between t today \<and> days_between t today \<le> 7)"
    by (auto simp: upcoming_entry_def split: sum.splits if_splits)
  with te show ?thesis by (simp add: days_until_def days_between_def)
qed


lemma upcoming_loop_spec:
  "upcoming_loop today rs acc = Inr res \<Longrightarrow>
   \<exists>es. res = acc @ es
     \<and> list_all2 (\<lambda>e r. \<exists>b c. birthday r = Some b
            \<and> valid_date (this_year_birthday today b) \<and> valid_date c
            \<and> toordinal c = toordinal (this_year_birthday today b)
                + weekend_shift (this_year_birthday today b)
            \<and> e = \<lparr>u_name = name r, u_birthday = strftime_dmY c,
                    u_congratulation_date = strftime_Ymd c\<rparr>)
          es (filter (is_upcoming today) rs)"
proof (induction rs arbitrary: acc)
  case Nil
  then show ?case by simp
next
  case (Cons r rs)
  show ?case
  proof (cases "birthday r")
    case None
    with Cons.prems have "upcoming_loop today rs acc = Inr res" by simp
    moreover from None have "\<not> is_upcoming today r" by (simp add: is_upcoming_def)
    ultimately show ?thesis using Cons.IH[of acc] by simp
  next
    case (Some b)
    with Cons.prems obtain o' where o': "upcoming_entry today (name r) b = Inr o'"
      by (auto split: sum.splits)
    show ?thesis
    proof (cases o')
      case None
      with Cons.prems Some o' have "upcoming_loop today rs acc = Inr res" by simp
      moreover from upcoming_entry_None[OF o'[unfolded None]] \<open>birthday r = Some b\<close>
      have "\<not> is_upcoming today r" by (simp add: is_upcoming_def)
      ultimately show ?thesis using Cons.IH[of acc] by simp
    next
      case (Some e)
      with Cons.prems \<open>birthday r = Some b\<close> o'
      have "upcoming_loop today rs (acc @ [e]) = Inr res" by simp
      from Cons.IH[OF this] obtain es where es: "res = (acc @ [e]) @ es"
        "list_all2 (\<lambda>e r. \<exists>b c. birthday r = Some b
            \<and> valid_date (this_year_birthday today b) \<and> valid_date c
            \<and> toordinal c = toordinal (this_year_birthday today b)
                + weekend_shift (this_year_birthday today b)
            \<and> e = \<lparr>u_name = name r, u_birthday = strftime_dmY c,
                    u_congratulation_date = strftime_Ymd c\<rparr>)
          es (filter (is_upcoming today) rs)" by blast
      from upcoming_entry_Some[OF o'[unfolded Some]] \<open>birthday r = Some b\<close>
      have u: "is_upcoming today r" by (simp add: is_upcoming_def)
      from upcoming_entry_Some[OF o'[unfolded Some]] \<open>birthday r = Some b\<close> es u
      show ?thesis
        by (intro exI[of _ "e # es"]) auto
    qed
  qed
qed

lemma upcoming_names:
  assumes "get_upcoming_birthdays today book = Inr res"
  shows "map u_name res = map name (filter (is_upcoming today) (map snd book))"
proof -
  from upcoming_loop_spec[OF assms[unfolded get_upcoming_birthdays_def]]
  have "list_all2 (\<lambda>e r. u_name e = name r) res (filter (is_upcoming today) (map snd book))"
    by (auto elim!: list_all2_mono)
  then show ?thesis
    by (induction rule: list_all2_induct) simp_all
qed

text \<open>Facts for evaluating the calendar on concrete dates.\<close>

lemma digit_chars:
  "digit_char 0 = CHR ''0''" "digit_char 1 = CHR ''1''" "digit_char 2 = CHR ''2''"
  "digit_char 3 = CHR ''3''" "digit_char 4 = CHR ''4''" "digit_char 5 = CHR ''5''"
  "digit_char 6 = CHR ''6''" "digit_char 7 = CHR ''7''" "digit_char 8 = CHR ''8''"
  "digit_char 9 = CHR ''9''" "digit_char (Suc 0) = CHR ''1''"
  by (simp_all add: digit_char_eq_iff)

lemma add_days_numerals:
  "add_days d 1 = (if year (next_day d) > MAXYEAR
                   then Inl (OverflowError ''date value out of range'')
                   else Inr (next_day d))"
  "add_days d 2 = (if year (next_day d) > MAXYEAR
                   then Inl (OverflowError ''date value out of range'')
                   else if year (next_day (next_day d)) > MAXYEAR
                   then Inl (OverflowError ''date value out of range'')
                   else Inr (next_day (next_day d)))"
  by (simp_all add: numeral_2_eq_2)

lemmas calendar_eval =
  date_new_def replace_year_def MAXYEAR_def days_in_month_def is_leap_def DAYS_IN_MONTH_def
  date_less_def days_between_def toordinal_def days_before_year_def days_before_month_def
  weekday_def next_day_def shift_weekend_def add_days_numerals
  strftime_dmY_def strftime_Ymd_def pad2_def dec.simps digit_chars

text \<open>
  Claim C2, as stated for every record whose own this-year birthday can be built:
  on Sunday 1 January 2023, in the book of Ann (born 3 January) and Bob (born
  29 February), Ann's this-year birthday is built and is 2 days ahead, yet the
  call raises on Bob's record, so Ann is in no result.
\<close>

theorem upcoming_other_record_raises_counterexample:
  "birthday \<lparr>name = ''Ann'', phones = [],
      birthday = Some \<lparr>year = 1990, month = 1, day = 3\<rparr>\<rparr>
     = Some \<lparr>year = 1990, month = 1, day = 3\<rparr>
   \<and> replace_year \<lparr>year = 1990, month = 1, day = 3\<rparr>
        (year \<lparr>year = 2023, month = 1, day = 1\<rparr>)
     = Inr \<lparr>year = 2023, month = 1, day = 3\<rparr>
   \<and> days_until \<lparr>year = 2023, month = 1, day = 1\<rparr> \<lparr>year = 1990, month = 1, day = 3\<rparr> = 2
   \<and> get_upcoming_birthdays \<lparr>year = 2023, month = 1, day = 1\<rparr>
        [(''Ann'', \<lparr>name = ''Ann'', phones = [],
            birthday = Some \<lparr>year = 1990, month = 1, day = 3\<rparr>\<rparr>),
         (''Bob'', \<lparr>name = ''Bob'', phones = [],
            birthday = Some \<lparr>year = 2000, month = 2, day = 29\<rparr>\<rparr>)]
     = Inl (ValueError ''day is out of range for month'')"
  by (simp add: get_upcoming_birthdays_def upcoming_entry_def days_until_def
      this_year_birthday_def calendar_eval)

text \<open>
  Claim C2, amended: whenever \<open>get_upcoming_birthdays\<close> returns a result (no
  record of the book makes a date construction fail), the names of its entries
  are, in the order of the book, the names of the records with a birthday whose
  \<open>days_until\<close> (the this-year birthday, advanced one year when strictly before
  today, minus today) is between 0 and 7. So in a book whose records have
  different names, a record with a birthday is included exactly when
  \<open>0 \<le> days_until \<le> 7\<close>; a birthday today is included and one 8 days ahead
  is excluded.
\<close>

theorem upcoming_iff_within_week:
  assumes "get_upcoming_birthdays today book = Inr res"
  shows "map u_name res = map name (filter (is_upcoming today) (map snd book))
       \<and> (distinct (map (\<lambda>kr. name (snd kr)) book) \<longrightarrow>
            (\<forall>kr \<in> set book. \<forall>b. birthday (snd kr) = Some b \<longrightarrow>
               ((\<exists>e \<in> set res. u_name e = name (snd kr))
                \<longleftrightarrow> 0 \<le> days_until today b \<and> days_until today b \<le> 7)))"
proof (intro conjI impI ballI allI)
  show n: "map u_name res = map name (filter (is_upcoming today) (map snd book))"
    by (rule upcoming_names[OF assms])
  fix kr b
  assume d: "distinct (map (\<lambda>kr. name (snd kr)) book)" and kr: "kr \<in> set book"
    and b: "birthday (snd kr) = Some b"
  have "(\<exists>e \<in> set res. u_name e = name (snd kr)) \<longleftrightarrow> name (snd kr) \<in> set (map u_name res)"
    by (force simp: image_iff)
  also have "\<dots> \<longleftrightarrow> (\<exists>kr' \<in> set book. is_upcoming today (snd kr') \<and> name (snd kr') = name (snd kr))"
    unfolding n by (force simp: image_iff)
  also have "\<dots> \<longleftrightarrow> is_upcoming today (snd kr)"
  proof
    assume "\<exists>kr' \<in> set book. is_upcoming today (snd kr') \<and> name (snd kr') = name (snd kr)"
    then obtain kr' where k: "kr' \<in> set book" "is_upcoming today (snd kr')"
      "name (snd kr') = name (snd kr)" by blast
    from d have "inj_on (\<lambda>kr. name (snd kr)) (set book)" by (simp add: distinct_map)
    with k(1,3) kr have "kr' = kr" by (auto dest: inj_onD)
    with k(2) show "is_upcoming today (snd kr)" by simp
  next
    assume "is_upcoming today (snd kr)"
    with kr show "\<exists>kr' \<in> set book. is_upcoming today (snd kr') \<and> name (snd kr') = name (snd kr)"
      by blast
  qed
  also have "\<dots> \<longleftrightarrow> 0 \<le> days_until today b \<and> days_until today b \<le> 7"
    using b by (simp add: is_upcoming_def)
  finally show "(\<exists>e \<in> set res. u_name e = name (snd kr))
                \<longleftrightarrow> 0 \<le> days_until today b \<and> days_until today b \<le> 7" .
qed

text \<open>
  On Monday 1 January 2024: a birthday today (0 days) is included, one in 8 days is
  excluded, one in 7 days is included, and a record without birthday is skipped.
\<close>

theorem upcoming_iff_within_week_witness:
  "get_upcoming_birthdays \<lparr>year = 2024, month = 1, day = 1\<rparr>
     [(''Ann'', \<lparr>name = ''Ann'', phones = [], birthday = Some \<lparr>year = 1990, month = 1, day = 1\<rparr>\<rparr>),
      (''Bob'', \<lparr>name = ''Bob'', phones = [], birthday = Some \<lparr>year = 1985, month = 1, day = 9\<rparr>\<rparr>),
      (''Cat'', \<lparr>name = ''Cat'', phones = [], birthday = Some \<lparr>year = 1992, month = 1, day = 8\<rparr>\<rparr>),
      (''Dan'', \<lparr>name = ''Dan'', phones = [], birthday = None\<rparr>)]
   = Inr [\<lparr>u_name = ''Ann'', u_birthday = ''01.01.2024'', u_congratulation_date = ''2024.01.01''\<rparr>,
       \<lparr>u_name = ''Cat'', u_birthday = ''08.01.2024'', u_congratulation_date = ''2024.01.08''\<rparr>]
   \<and> map name (filter (is_upcoming \<lparr>year = 2024, month = 1, day = 1\<rparr>) (map snd
     [(''Ann'', \<lparr>name = ''Ann'', phones = [], birthday = Some \<lparr>year = 1990, month = 1, day = 1\<rparr>\<rparr>),
      (''Bob'', \<lparr>name = ''Bob'', phones = [], birthday = Some \<lparr>year = 1985, month = 1, day = 9\<rparr>\<rparr>),
      (''Cat'', \<lparr>name = ''Cat'', phones = [], birthday = Some \<lparr>year = 1992, month = 1, day = 8\<rparr>\<rparr>),
      (''Dan'', \<lparr>name = ''Dan'', phones = [], birthday = None\<rparr>)]))
     = [''Ann'', ''Cat'']
   \<and> days_until \<lparr>year = 2024, month = 1, day = 1\<rparr> \<lparr>year = 1990, month = 1, day = 1\<rparr> = 0
   \<and> days_until \<lparr>year = 2024, month = 1, day = 1\<rparr> \<lparr>year = 1985, month = 1, day = 9\<rparr> = 8
   \<and> days_until \<lparr>year = 2024, month = 1, day = 1\<rparr> \<lparr>year = 1992, month = 1, day = 8\<rparr> = 7"
proof -
  let ?B = "[(''Ann'', \<lparr>name = ''Ann'', phones = [], birthday = Some \<lparr>year = 1990, month = 1, day = 1\<rparr>\<rparr>),
      (''Bob'', \<lparr>name = ''Bob'', phones = [], birthday = Some \<lparr>year = 1985, month = 1, day = 9\<rparr>\<rparr>),
      (''Cat'', \<lparr>name = ''Cat'', phones = [], birthday = Some \<lparr>year = 1992, month = 1, day = 8\<rparr>\<rparr>),
      (''Dan'', \<lparr>name = ''Dan'', phones = [], birthday = None\<rparr>)]"
  have ev: "get_upcoming_birthdays \<lparr>year = 2024, month = 1, day = 1\<rparr> ?B
    = Inr [\<lparr>u_name = ''Ann'', u_birthday = ''01.01.2024'', u_congratulation_date = ''2024.01.01''\<rparr>,
       \<lparr>u_name = ''Cat'', u_birthday = ''08.01.2024'', u_congratulation_date = ''2024.01.08''\<rparr>]"
    by (simp add: get_upcoming_birthdays_def upcoming_entry_def calendar_eval)
  have d: "days_until \<lparr>year = 2024, month = 1, day = 1\<rparr> \<lparr>year = 1990, month = 1, day = 1\<rparr> = 0"
    "days_until \<lparr>year = 2024, month = 1, day = 1\<rparr> \<lparr>year = 1985, month = 1, day = 9\<rparr> = 8"
    "days_until \<lparr>year = 2024, month = 1, day = 1\<rparr> \<lparr>year = 1992, month = 1, day = 8\<rparr> = 7"
    by (simp_all add: days_until_def this_year_birthday_def calendar_eval)
  from upcoming_iff_within_week[OF ev]
  have "map name (filter (is_upcoming \<lparr>year = 2024, month = 1, day = 1\<rparr>) (map snd ?B)) = [''Ann'', ''Cat'']"
    by simp
  with ev d show ?thesis by simp
qed

text \<open>
  Claim C3: when \<open>get_upcoming_birthdays\<close> returns, its entries stand, in order,
  for the upcoming records, and the celebration date \<open>c\<close> of each (the date shown
  under \<open>congratulation_date\<close>) is a valid date whose ordinal is that of the
  this-year birthday plus 2 when the birthday falls on a Saturday, plus 1 on a
  Sunday, and the birthday's own on any other weekday.
\<close>

theorem celebration_off_weekend:
  assumes "get_upcoming_birthdays today book = Inr res"
  shows "list_all2 (\<lambda>e r. \<exists>b c. birthday r = Some b \<and> u_name e = name r
            \<and> valid_date c \<and> u_congratulation_date e = strftime_Ymd c
            \<and> toordinal c = toordinal (this_year_birthday today b)
                + (if weekday (this_year_birthday today b) = 5 then 2
                   else if weekday (this_year_birthday today b) = 6 then 1 else 0))
          res (filter (is_upcoming today) (map snd book))"
proof -
  from upcoming_loop_spec[OF assms[unfolded get_upcoming_birthdays_def]]
  have l: "list_all2 (\<lambda>e r. \<exists>b c. birthday r = Some b
            \<and> valid_date (this_year_birthday today b) \<and> valid_date c
            \<and> toordinal c = toordinal (this_year_birthday today b)
                + weekend_shift (this_year_birthday today b)
            \<and> e = \<lparr>u_name = name r, u_birthday = strftime_dmY c,
                    u_congratulation_date = strftime_Ymd c\<rparr>)
          res (filter (is_upcoming today) (map snd book))"
    by simp
  show ?thesis
  proof (rule list_all2_mono[OF l])
    fix e r
    assume "\<exists>b c. birthday r = Some b
            \<and> valid_date (this_year_birthday today b) \<and> valid_date c
            \<and> toordinal c = toordinal (this_year_birthday today b)
                + weekend_shift (this_year_birthday today b)
            \<and> e = \<lparr>u_name = name r, u_birthday = strftime_dmY c,
                    u_congratulation_date = strftime_Ymd c\<rparr>"
    then obtain b c where bc: "birthday r = Some b" "valid_date c"
      "toordinal c = toordinal (this_year_birthday today b)
                + weekend_shift (this_year_birthday today b)"
      "e = \<lparr>u_name = name r, u_birthday = strftime_dmY c,
                    u_congratulation_date = strftime_Ymd c\<rparr>"
      by blast
    have "birthday r = Some b \<and> u_name e = name r
            \<and> valid_date c \<and> u_congratulation_date e = strftime_Ymd c
            \<and> toordinal c = toordinal (this_year_birthday today b)
                + (if weekday (this_year_birthday today b) = 5 then 2
                   else if weekday (this_year_birthday today b) = 6 then 1 else 0)"
      using bc unfolding weekend_shift_def by simp
    then show "\<exists>b c. birthday r = Some b \<and> u_name e = name r
            \<and> valid_date c \<and> u_congratulation_date e = strftime_Ymd c
            \<and> toordinal c = toordinal (this_year_birthday today b)
                + (if weekday (this_year_birthday today b) = 5 then 2
                   else if weekday (this_year_birthday today b) = 6 then 1 else 0)"
      by blast
  qed
qed

text \<open>
  On Monday 1 January 2024: Saturday 6 January and Sunday 7 January are both
  celebrated on Monday 8 January, Thursday 4 January on the day itself.
\<close>

theorem celebration_off_weekend_witness:
  "get_upcoming_birthdays \<lparr>year = 2024, month = 1, day = 1\<rparr>
     [(''Ann'', \<lparr>name = ''Ann'', phones = [], birthday = Some \<lparr>year = 1990, month = 1, day = 6\<rparr>\<rparr>),
      (''Bob'', \<lparr>name = ''Bob'', phones = [], birthday = Some \<lparr>year = 1990, month = 1, day = 7\<rparr>\<rparr>),
      (''Cat'', \<lparr>name = ''Cat'', phones = [], birthday = Some \<lparr>year = 1990, month = 1, day = 4\<rparr>\<rparr>)]
   = Inr [\<lparr>u_name = ''Ann'', u_birthday = ''08.01.2024'', u_congratulation_date = ''2024.01.08''\<rparr>,
       \<lparr>u_name = ''Bob'', u_birthday = ''08.01.2024'', u_congratulation_date = ''2024.01.08''\<rparr>,
       \<lparr>u_name = ''Cat'', u_birthday = ''04.01.2024'', u_congratulation_date = ''2024.01.04''\<rparr>]
   \<and> filter (is_upcoming \<lparr>year = 2024, month = 1, day = 1\<rparr>) (map snd
     [(''Ann'', \<lparr>name = ''Ann'', phones = [], birthday = Some \<lparr>year = 1990, month = 1, day = 6\<rparr>\<rparr>),
      (''Bob'', \<lparr>name = ''Bob'', phones = [], birthday = Some \<lparr>year = 1990, month = 1, day = 7\<rparr>\<rparr>),
      (''Cat'', \<lparr>name = ''Cat'', phones = [], birthday = Some \<lparr>year = 1990, month = 1, day = 4\<rparr>\<rparr>)])
     = map snd
     [(''Ann'', \<lparr>name = ''Ann'', phones = [], birthday = Some \<lparr>year = 1990, month = 1, day = 6\<rparr>\<rparr>),
      (''Bob'', \<lparr>name = ''Bob'', phones = [], birthday = Some \<lparr>year = 1990, month = 1, day = 7\<rparr>\<rparr>),
      (''Cat'', \<lparr>name = ''Cat'', phones = [], birthday = Some \<lparr>year = 1990, month = 1, day = 4\<rparr>\<rparr>)]
   \<and> this_year_birthday \<lparr>year = 2024, month = 1, day = 1\<rparr> \<lparr>year = 1990, month = 1, day = 6\<rparr> = \<lparr>year = 2024, month = 1, day = 6\<rparr>
   \<and> weekday \<lparr>year = 2024, month = 1, day = 6\<rparr> = 5
   \<and> toordinal \<lparr>year = 2024, month = 1, day = 8\<rparr> = toordinal \<lparr>year = 2024, month = 1, day = 6\<rparr> + 2
   \<and> this_year_birthday \<lparr>year = 2024, month = 1, day = 1\<rparr> \<lparr>year = 1990, month = 1, day = 7\<rparr> = \<lparr>year = 2024, month = 1, day = 7\<rparr>
   \<and> weekday \<lparr>year = 2024, month = 1, day = 7\<rparr> = 6
   \<and> toordinal \<lparr>year = 2024, month = 1, day = 8\<rparr> = toordinal \<lparr>year = 2024, month = 1, day = 7\<rparr> + 1
   \<and> this_year_birthday \<lparr>year = 2024, month = 1, day = 1\<rparr> \<lparr>year = 1990, month = 1, day = 4\<rparr> = \<lparr>year = 2024, month = 1, day = 4\<rparr>
   \<and> weekday \<lparr>year = 2024, month = 1, day = 4\<rparr> = 3"
proof -
  let ?B = "[(''Ann'', \<lparr>name = ''Ann'', phones = [], birthday = Some \<lparr>year = 1990, month = 1, day = 6\<rparr>\<rparr>),
      (''Bob'', \<lparr>name = ''Bob'', phones = [], birthday = Some \<lparr>year = 1990, month = 1, day = 7\<rparr>\<rparr>),
      (''Cat'', \<lparr>name = ''Cat'', phones = [], birthday = Some \<lparr>year = 1990, month = 1, day = 4\<rparr>\<rparr>)]"
  have ev: "get_upcoming_birthdays \<lparr>year = 2024, month = 1, day = 1\<rparr> ?B
    = Inr [\<lparr>u_name = ''Ann'', u_birthday = ''08.01.2024'', u_congratulation_date = ''2024.01.08''\<rparr>,
       \<lparr>u_name = ''Bob'', u_birthday = ''08.01.2024'', u_congratulation_date = ''2024.01.08''\<rparr>,
       \<lparr>u_name = ''Cat'', u_birthday = ''04.01.2024'', u_congratulation_date = ''2024.01.04''\<rparr>]"
    by (simp add: get_upcoming_birthdays_def upcoming_entry_def calendar_eval)
  have f: "filter (is_upcoming \<lparr>year = 2024, month = 1, day = 1\<rparr>) (map snd ?B) = map snd ?B"
    by (simp add: is_upcoming_def days_until_def this_year_birthday_def calendar_eval)
  have c: "this_year_birthday \<lparr>year = 2024, month = 1, day = 1\<rparr> \<lparr>year = 1990, month = 1, day = 6\<rparr> = \<lparr>year = 2024, month = 1, day = 6\<rparr>"
    "weekday \<lparr>year = 2024, month = 1, day = 6\<rparr> = 5"
    "toordinal \<lparr>year = 2024, month = 1, day = 8\<rparr> = toordinal \<lparr>year = 2024, month = 1, day = 6\<rparr> + 2"
    "this_year_birthday \<lparr>year = 2024, month = 1, day = 1\<rparr> \<lparr>year = 1990, month = 1, day = 7\<rparr> = \<lparr>year = 2024, month = 1, day = 7\<rparr>"
    "weekday \<lparr>year = 2024, month = 1, day = 7\<rparr> = 6"
    "toordinal \<lparr>year = 2024, month = 1, day = 8\<rparr> = toordinal \<lparr>year = 2024, month = 1, day = 7\<rparr> + 1"
    "this_year_birthday \<lparr>year = 2024, month = 1, day = 1\<rparr> \<lparr>year = 1990, month = 1, day = 4\<rparr> = \<lparr>year = 2024, month = 1, day = 4\<rparr>"
    "weekday \<lparr>year = 2024, month = 1, day = 4\<rparr> = 3"
    by (simp_all add: this_year_birthday_def calendar_eval)
  from celebration_off_weekend[OF ev] ev f c show ?thesis by simp
qed

text \<open>
  Claim C1 fails on the code: the entry's \<open>birthday\<close> field is formatted from
  \<open>congratulation_date\<close>, not from the this-year birthday. On Monday 1 January
  2024 a birthday of 6 January falls on a Saturday; the entry holds
  \<open>08.01.2024\<close> under \<open>birthday\<close>, while the this-year birthday is \<open>06.01.2024\<close>.
\<close>

theorem birthday_field_holds_celebration_date:
  "get_upcoming_birthdays \<lparr>year = 2024, month = 1, day = 1\<rparr>
     [(''Ann'', \<lparr>name = ''Ann'', phones = [], birthday = Some \<lparr>year = 1990, month = 1, day = 6\<rparr>\<rparr>)]
   = Inr [\<lparr>u_name = ''Ann'', u_birthday = ''08.01.2024'', u_congratulation_date = ''2024.01.08''\<rparr>]
   \<and> this_year_birthday \<lparr>year = 2024, month = 1, day = 1\<rparr> \<lparr>year = 1990, month = 1, day = 6\<rparr> = \<lparr>year = 2024, month = 1, day = 6\<rparr>
   \<and> weekday \<lparr>year = 2024, month = 1, day = 6\<rparr> = 5
   \<and> strftime_dmY \<lparr>year = 2024, month = 1, day = 6\<rparr> = ''06.01.2024''"
  by (simp add: get_upcoming_birthdays_def upcoming_entry_def this_year_birthday_def
      calendar_eval)

section \<open>A birthday on 29 February\<close>

lemma upcoming_loop_raises_at:
  "r \<in> set rs \<Longrightarrow> birthday r = Some b \<Longrightarrow> upcoming_entry today (name r) b = Inl e0 \<Longrightarrow>
   \<exists>e. upcoming_loop today rs acc = Inl e"
proof (induction rs arbitrary: acc)
  case Nil
  then show ?case by simp
next
  case (Cons x rs)
  show ?case
  proof (cases "x = r")
    case True
    with Cons.prems show ?thesis by simp
  next
    case False
    with Cons.prems have "r \<in> set rs" by simp
    from Cons.IH[OF this Cons.prems(2,3)] show ?thesis
      by (auto split: option.splits sum.splits)
  qed
qed

lemma days_in_month_Feb: "\<not> is_leap y \<Longrightarrow> days_in_month y 2 = 28"
  by (simp add: days_in_month_def DAYS_IN_MONTH_def)

lemma replace_year_Feb29:
  assumes "month b = 2" "day b = 29" "\<not> is_leap y"
  shows "\<exists>e. replace_year b y = Inl e"
    and "1 \<le> y \<Longrightarrow> y \<le> MAXYEAR \<Longrightarrow>
         replace_year b y = Inl (ValueError ''day is out of range for month'')"
  using assms by (simp_all add: replace_year_def date_new_def days_in_month_Feb)

text \<open>
  Claim C4: when the book holds a record whose birthday is 29 February and the
  current year is not a leap year, \<open>get_upcoming_birthdays\<close> raises instead of
  returning a result: \<open>replace(year=today.year)\<close> on that birthday is a
  \<open>ValueError\<close>, and nothing in the loop catches it.
\<close>

theorem Feb29_raises:
  assumes "kr \<in> set book" and "birthday (snd kr) = Some b"
    and "month b = 2" and "day b = 29" and "\<not> is_leap (year today)"
  shows "(\<exists>e. get_upcoming_birthdays today book = Inl e)
       \<and> (valid_date today \<longrightarrow>
            replace_year b (year today) = Inl (ValueError ''day is out of range for month''))"
proof
  from replace_year_Feb29(1)[OF assms(3,4,5)] obtain e0
    where "replace_year b (year today) = Inl e0" by blast
  then have "upcoming_entry today (name (snd kr)) b = Inl e0"
    by (simp add: upcoming_entry_def)
  moreover from assms(1) have "snd kr \<in> set (map snd book)" by simp
  ultimately show "\<exists>e. get_upcoming_birthdays today book = Inl e"
    unfolding get_upcoming_birthdays_def
    using upcoming_loop_raises_at[OF _ assms(2)] by blast
  show "valid_date today \<longrightarrow>
        replace_year b (year today) = Inl (ValueError ''day is out of range for month'')"
    using replace_year_Feb29(2)[OF assms(3,4,5)] by (simp add: valid_date_def)
qed

text \<open>
  Such a state is reachable: the commands \<open>add Ann 1234567890\<close> and
  \<open>add-birthday Ann 29.02.2000\<close> on the empty book give it, and on 1 March 2023
  \<open>get_upcoming_birthdays\<close> raises the \<open>ValueError\<close>, which the handler
  \<open>handle_birthdays\<close> shows as its text.
\<close>

theorem Feb29_raises_witness:
  "handle_add_contact [''Ann'', ''1234567890''] []
     = (''Contact added.'',
        [(''Ann'', \<lparr>name = ''Ann'', phones = [''1234567890''], birthday = None\<rparr>)])
   \<and> handle_add_birthday [''Ann'', ''29.02.2000'']
        [(''Ann'', \<lparr>name = ''Ann'', phones = [''1234567890''], birthday = None\<rparr>)]
     = (''Birthday added'',
        [(''Ann'', \<lparr>name = ''Ann'', phones = [''1234567890''],
            birthday = Some \<lparr>year = 2000, month = 2, day = 29\<rparr>\<rparr>)])
   \<and> \<not> is_leap 2023
   \<and> get_upcoming_birthdays \<lparr>year = 2023, month = 3, day = 1\<rparr>
        [(''Ann'', \<lparr>name = ''Ann'', phones = [''1234567890''],
            birthday = Some \<lparr>year = 2000, month = 2, day = 29\<rparr>\<rparr>)]
     = Inl (ValueError ''day is out of range for month'')
   \<and> fst (handle_birthdays \<lparr>year = 2023, month = 3, day = 1\<rparr> []
        [(''Ann'', \<lparr>name = ''Ann'', phones = [''1234567890''],
            birthday = Some \<lparr>year = 2000, month = 2, day = 29\<rparr>\<rparr>)])
     = ''day is out of range for month''"
proof -
  let ?b = "\<lparr>year = 2000, month = 2, day = 29\<rparr>"
  let ?B1 = "[(''Ann'', \<lparr>name = ''Ann'', phones = [''1234567890''], birthday = None\<rparr>)]"
  let ?B2 = "[(''Ann'', \<lparr>name = ''Ann'', phones = [''1234567890''], birthday = Some ?b\<rparr>)]"
  let ?T = "\<lparr>year = 2023, month = 3, day = 1\<rparr>"
  have a: "handle_add_contact [''Ann'', ''1234567890''] [] = (''Contact added.'', ?B1)"
    by (simp add: handle_add_contact_def handle_add_contact_func_def input_error_def
        add_contact_def find_book_def Record_init_def Name_def isalpha_def is_alpha_char_def
        add_record_def add_phone_def Phone_def isdigit_def is_digit_char_def
        is_decimal_char_def)
  have p: "Birthday ''29.02.2000'' = Inr ?b"
    by (simp add: Birthday_def strptime_dmY_def re_match_def re_d_def re_m_def
        is_decimal_char_def in_range_def digit_val_def date_new_def MAXYEAR_def
        days_in_month_def is_leap_def DAYS_IN_MONTH_def)
  have b: "handle_add_birthday [''Ann'', ''29.02.2000''] ?B1 = (''Birthday added'', ?B2)"
    by (simp add: handle_add_birthday_def handle_add_birthday_func_def input_error_def
        find_book_def add_birthday_def p)
  have l: "\<not> is_leap 2023" by (simp add: is_leap_def)
  have v: "valid_date ?T" by (simp add: valid_date_def MAXYEAR_def days_in_month_def DAYS_IN_MONTH_def)
  have h: "(''Ann'', \<lparr>name = ''Ann'', phones = [''1234567890''], birthday = Some ?b\<rparr>) \<in> set ?B2"
    "birthday (snd (''Ann'', \<lparr>name = ''Ann'', phones = [''1234567890''], birthday = Some ?b\<rparr>)) = Some ?b"
    "month ?b = 2" "day ?b = 29" "\<not> is_leap (year ?T)"
    using l by simp_all
  from Feb29_raises[OF h] v
  have r: "replace_year ?b (year ?T) = Inl (ValueError ''day is out of range for month'')"
    by blast
  then have g: "get_upcoming_birthdays ?T ?B2 = Inl (ValueError ''day is out of range for month'')"
    by (simp add: get_upcoming_birthdays_def upcoming_entry_def)
  then have hb: "fst (handle_birthdays ?T [] ?B2) = ''day is out of range for month''"
    by (simp add: handle_birthdays_def handle_birthdays_func_def input_error_def exn_str_def
        exn_message_def)
  from a b l g hb show ?thesis by simp
qed

section \<open>When the birthday query returns\<close>

lemma days_in_month_other_year:
  assumes "d \<le> days_in_month y1 m" and "\<not> (m = 2 \<and> d = 29)"
  shows "d \<le> days_in_month y2 m"
proof (cases "m = 2")
  case True
  have "days_in_month y1 2 \<le> 29" "28 \<le> days_in_month y2 2"
    by (simp_all add: days_in_month_def DAYS_IN_MONTH_def)
  with assms True show ?thesis by simp
next
  case False
  with assms show ?thesis by (simp add: days_in_month_def)
qed

lemma replace_year_ok:
  assumes "valid_date b" and "\<not> (month b = 2 \<and> day b = 29)" and "1 \<le> y" and "y \<le> MAXYEAR"
  shows "replace_year b y = Inr (b\<lparr>year := y\<rparr>)"
proof -
  from assms(1) have v: "1 \<le> month b" "month b \<le> 12" "1 \<le> day b"
    "day b \<le> days_in_month (year b) (month b)"
    by (simp_all add: valid_date_def)
  from days_in_month_other_year[OF v(4) assms(2), of y] v assms(3,4)
  show ?thesis by (simp add: replace_year_def date_new_def)
qed

lemma year_next_day: "year (next_day d) \<le> year d + 1"
  by (simp add: next_day_def)

lemma add_days_ok: "year d + n \<le> MAXYEAR \<Longrightarrow> \<exists>c. add_days d n = Inr c"
proof (induction n arbitrary: d)
  case 0
  then show ?case by simp
next
  case (Suc n)
  from year_next_day[of d] Suc.prems have "year (next_day d) + n \<le> MAXYEAR" by simp
  from Suc.IH[OF this] this show ?case by simp
qed

lemma shift_weekend_ok: "year t + 2 \<le> MAXYEAR \<Longrightarrow> \<exists>c. shift_weekend t = Inr c"
  using add_days_ok[of t 2] add_days_ok[of t 1]
  by (simp add: shift_weekend_def del: add_days.simps)

lemma upcoming_entry_ok:
  assumes "1 \<le> year today" and "year today + 3 \<le> MAXYEAR"
    and "valid_date b" and "\<not> (month b = 2 \<and> day b = 29)"
  shows "\<exists>r. upcoming_entry today n b = Inr r"
proof -
  from assms have a: "replace_year b (year today) = Inr (b\<lparr>year := year today\<rparr>)"
    by (intro replace_year_ok) simp_all
  from replace_year_eq[OF a] have v0: "valid_date (b\<lparr>year := year today\<rparr>)" by simp
  from assms have b: "replace_year (b\<lparr>year := year today\<rparr>) (year today + 1)
       = Inr (b\<lparr>year := year today + 1\<rparr>)"
    using replace_year_ok[OF v0, of "year today + 1"] by simp
  define t where "t = this_year_birthday today b"
  have t: "(if date_less (b\<lparr>year := year today\<rparr>) today
            then replace_year (b\<lparr>year := year today\<rparr>) (year today + 1)
            else Inr (b\<lparr>year := year today\<rparr>)) = Inr t"
    using b by (simp add: t_def this_year_birthday_def)
  have "year t \<le> year today + 1" by (simp add: t_def this_year_birthday_def)
  with assms(2) have "year t + 2 \<le> MAXYEAR" by simp
  from shift_weekend_ok[OF this] obtain c where c: "shift_weekend t = Inr c" by blast
  show ?thesis
    unfolding upcoming_entry_def by (simp add: a t c del: add_days.simps)
qed

lemma upcoming_loop_ok:
  assumes "1 \<le> year today" and "year today + 3 \<le> MAXYEAR"
  shows "(\<forall>r \<in> set rs. \<forall>b. birthday r = Some b \<longrightarrow>
            valid_date b \<and> \<not> (month b = 2 \<and> day b = 29)) \<Longrightarrow>
         \<exists>res. upcoming_loop today rs acc = Inr res"
proof (induction rs arbitrary: acc)
  case Nil
  then show ?case by simp
next
  case (Cons r rs)
  then have ih: "\<And>acc. \<exists>res. upcoming_loop today rs acc = Inr res" by simp
  show ?case
  proof (cases "birthday r")
    case None
    with ih[of acc] show ?thesis by simp
  next
    case (Some b)
    with Cons.prems have "valid_date b" "\<not> (month b = 2 \<and> day b = 29)" by simp_all
    from upcoming_entry_ok[OF assms this] obtain v
      where v: "upcoming_entry today (name r) b = Inr v" by blast
    show ?thesis
    proof (cases v)
      case None
      with v Some ih[of acc] show ?thesis by simp
    next
      case (Some e)
      with v \<open>birthday r = Some b\<close> ih[of "acc @ [e]"] show ?thesis by simp
    qed
  qed
qed

text \<open>
  \<open>get_upcoming_birthdays\<close> returns a result whenever today is a valid date of a
  year up to 9996, every birthday in the book is a valid date, and none is a
  29 February.
\<close>

theorem get_upcoming_birthdays_returns:
  assumes "valid_date today" and "year today + 3 \<le> MAXYEAR"
    and "\<forall>kr \<in> set book. \<forall>b. birthday (snd kr) = Some b \<longrightarrow>
           valid_date b \<and> \<not> (month b = 2 \<and> day b = 29)"
  shows "\<exists>res. get_upcoming_birthdays today book = Inr res"
proof -
  from assms(1) have y: "1 \<le> year today" by (simp add: valid_date_def)
  from assms(3) have "\<forall>r \<in> set (map snd book). \<forall>b. birthday r = Some b \<longrightarrow>
            valid_date b \<and> \<not> (month b = 2 \<and> day b = 29)" by simp
  from upcoming_loop_ok[OF y assms(2) this] show ?thesis
    by (simp add: get_upcoming_birthdays_def)
qed

theorem get_upcoming_birthdays_returns_witness:
  "valid_date \<lparr>year = 2024, month = 1, day = 1\<rparr>
   \<and> year \<lparr>year = 2024, month = 1, day = 1\<rparr> + 3 \<le> MAXYEAR
   \<and> (\<exists>res. get_upcoming_birthdays \<lparr>year = 2024, month = 1, day = 1\<rparr>
     [(''Ann'', \<lparr>name = ''Ann'', phones = [],
          birthday = Some \<lparr>year = 1990, month = 1, day = 6\<rparr>\<rparr>),
      (''Dan'', \<lparr>name = ''Dan'', phones = [], birthday = None\<rparr>)] = Inr res)"
proof -
  have v: "valid_date \<lparr>year = 2024, month = 1, day = 1\<rparr>"
    by (simp add: valid_date_def MAXYEAR_def days_in_month_def DAYS_IN_MONTH_def)
  have y: "year \<lparr>year = 2024, month = 1, day = 1\<rparr> + 3 \<le> MAXYEAR" by (simp add: MAXYEAR_def)
  have b: "\<forall>kr \<in> set
     [(''Ann'', \<lparr>name = ''Ann'', phones = [],
          birthday = Some \<lparr>year = 1990, month = 1, day = 6\<rparr>\<rparr>),
      (''Dan'', \<lparr>name = ''Dan'', phones = [], birthday = None\<rparr>)]. \<forall>b. birthday (snd kr) = Some b \<longrightarrow>
           valid_date b \<and> \<not> (month b = 2 \<and> day b = 29)"
    by (simp add: valid_date_def MAXYEAR_def days_in_month_def DAYS_IN_MONTH_def)
  from get_upcoming_birthdays_returns[OF v y b] v y show ?thesis by simp
qed

section \<open>The handlers keep the book well-formed\<close>

lemma map_fst_dict_set:
  "map fst (dict_set book k r)
     = (if k \<in> set (map fst book) then map fst book else map fst book @ [k])"
  by (induction book) (force simp: image_iff)+

lemma set_dict_set: "set (dict_set book k r) \<subseteq> insert (k, r) (set book)"
  by (induction book) (auto split: if_splits)

lemma book_ok_dict_set:
  assumes "book_ok book" and "name r = k" and "isalpha k"
    and "\<forall>b. birthday r = Some b \<longrightarrow> valid_date b"
  shows "book_ok (dict_set book k r)"
proof -
  have "distinct (map fst (dict_set book k r))"
    using assms(1) by (simp add: map_fst_dict_set book_ok_def)
  moreover have "\<forall>kr \<in> set (dict_set book k r). name (snd kr) = fst kr \<and> isalpha (fst kr)
            \<and> (\<forall>b. birthday (snd kr) = Some b \<longrightarrow> valid_date b)"
  proof
    fix kr assume "kr \<in> set (dict_set book k r)"
    with set_dict_set[of book k r] have "kr = (k, r) \<or> kr \<in> set book" by auto
    then show "name (snd kr) = fst kr \<and> isalpha (fst kr)
            \<and> (\<forall>b. birthday (snd kr) = Some b \<longrightarrow> valid_date b)"
      using assms by (auto simp: book_ok_def)
  qed
  ultimately show ?thesis by (simp add: book_ok_def)
qed

lemma book_ok_find:
  assumes "book_ok book" and "find_book book n = Some r"
  shows "name r = n \<and> isalpha n \<and> (\<forall>b. birthday r = Some b \<longrightarrow> valid_date b)"
proof -
  from assms(2) have "(n, r) \<in> set book" by (simp add: find_book_def map_of_SomeD)
  with assms(1) show ?thesis by (force simp: book_ok_def)
qed

lemma book_ok_add_contact:
  assumes "book_ok book"
  shows "book_ok (snd (add_contact book n phone))"
proof (cases "find_book book n")
  case None
  show ?thesis
  proof (cases "isalpha n")
    case False
    with None assms show ?thesis
      by (simp add: add_contact_def Record_init_def Name_def)
  next
    case True
    let ?r = "\<lparr>name = n, phones = [], birthday = None\<rparr>"
    have 1: "book_ok (add_record book ?r)"
      unfolding add_record_def using book_ok_dict_set[OF assms, of ?r n] True by simp
    have 2: "book_ok (dict_set (add_record book ?r) n (?r\<lparr>phones := phones ?r @ [p]\<rparr>))" for p
      using book_ok_dict_set[OF 1, of "?r\<lparr>phones := phones ?r @ [p]\<rparr>" n] True by simp
    from None True 1 2 show ?thesis
      by (auto simp: add_contact_def Record_init_def Name_def add_phone_def
          split: option.splits sum.splits)
  qed
next
  case (Some r)
  from book_ok_find[OF assms Some] have r: "name r = n" "isalpha n"
    "\<forall>b. birthday r = Some b \<longrightarrow> valid_date b" by simp_all
  have "book_ok (dict_set book n (r\<lparr>phones := phones r @ [p]\<rparr>))" for p
    using book_ok_dict_set[OF assms, of "r\<lparr>phones := phones r @ [p]\<rparr>" n] r by simp
  with Some assms show ?thesis
    by (auto simp: add_contact_def add_phone_def split: option.splits sum.splits)
qed

lemma book_ok_change_contact:
  assumes "book_ok book"
  shows "book_ok (snd (change_contact book n old_phone new_phone))"
proof (cases "find_book book n")
  case None
  with assms show ?thesis by (simp add: change_contact_def)
next
  case (Some r)
  from book_ok_find[OF assms Some] have r: "name r = n" "isalpha n"
    "\<forall>b. birthday r = Some b \<longrightarrow> valid_date b" by simp_all
  have "book_ok (dict_set book n (r\<lparr>phones := ps\<rparr>))" for ps
    using book_ok_dict_set[OF assms, of "r\<lparr>phones := ps\<rparr>" n] r by simp
  with Some assms show ?thesis
    by (auto simp: change_contact_def edit_phone_def split: option.splits sum.splits)
qed

lemma Birthday_valid: "Birthday s = Inr d \<Longrightarrow> valid_date d"
  by (auto simp: Birthday_def dest: strptime_valid split: option.splits)

lemma book_ok_add_birthday:
  assumes "book_ok book"
  shows "book_ok (snd (handle_add_birthday_func (args, book)))"
proof -
  have "book_ok (dict_set book n (r\<lparr>birthday := Some d\<rparr>))"
    if "find_book book n = Some r" "Birthday s = Inr d" for n r s d
    using book_ok_dict_set[OF assms, of "r\<lparr>birthday := Some d\<rparr>" n]
      book_ok_find[OF assms that(1)] Birthday_valid[OF that(2)] by simp
  with assms show ?thesis
    by (auto simp: handle_add_birthday_func_def add_birthday_def
        split: list.splits option.splits sum.splits)
qed

lemma snd_input_error: "snd (input_error f x) = snd (f x)"
  by (cases "f x") (auto simp: input_error_def split: sum.splits)

text \<open>
  The empty book is well-formed and every handler keeps a well-formed book
  well-formed; the handlers that only read leave the book as it is. In a
  well-formed book the records have different names.
\<close>

theorem handlers_keep_book_ok:
  "book_ok []
   \<and> (book_ok book \<longrightarrow>
        book_ok (snd (handle_add_contact args book))
        \<and> book_ok (snd (handle_change_contact args book))
        \<and> book_ok (snd (handle_add_birthday args book))
        \<and> snd (handle_show_phone args book) = book
        \<and> snd (handle_show_birthday args book) = book
        \<and> snd (handle_birthdays today args book) = book
        \<and> snd (handle_show_all book) = book
        \<and> distinct (map (\<lambda>kr. name (snd kr)) book))"
proof (intro conjI impI)
  show "book_ok []" by (simp add: book_ok_def)
next
  assume ok: "book_ok book"
  show "book_ok (snd (handle_add_contact args book))"
    using book_ok_add_contact[OF ok] ok
    by (simp add: handle_add_contact_def snd_input_error handle_add_contact_func_def
        split: list.splits)
  show "book_ok (snd (handle_change_contact args book))"
    using book_ok_change_contact[OF ok] ok
    by (simp add: handle_change_contact_def snd_input_error handle_change_contact_func_def
        split: list.splits)
  show "book_ok (snd (handle_add_birthday args book))"
    using book_ok_add_birthday[OF ok]
    by (simp add: handle_add_birthday_def snd_input_error)
  show "snd (handle_show_phone args book) = book"
    by (simp add: handle_show_phone_def snd_input_error handle_show_phone_func_def
        split: list.splits)
  show "snd (handle_show_birthday args book) = book"
    by (simp add: handle_show_birthday_def snd_input_error handle_show_birthday_func_def
        split: list.splits option.splits)
  show "snd (handle_birthdays today args book) = book"
    by (simp add: handle_birthdays_def snd_input_error handle_birthdays_func_def
        split: sum.splits)
  show "snd (handle_show_all book) = book"
    by (simp add: handle_show_all_def snd_input_error handle_show_all_func_def)
  have eq: "map (\<lambda>kr. name (snd kr)) book = map fst book"
    using ok by (simp add: book_ok_def)
  have "distinct (map fst book)" using ok by (simp add: book_ok_def)
  then show "distinct (map (\<lambda>kr. name (snd kr)) book)" unfolding eq .
qed

theorem handlers_keep_book_ok_witness:
  "book_ok []
   \<and> snd (handle_add_contact [''Ann'', ''1234567890''] [])
       = [(''Ann'', \<lparr>name = ''Ann'', phones = [''1234567890''], birthday = None\<rparr>)]
   \<and> book_ok [(''Ann'', \<lparr>name = ''Ann'', phones = [''1234567890''], birthday = None\<rparr>)]"
proof -
  have a: "snd (handle_add_contact [''Ann'', ''1234567890''] [])
       = [(''Ann'', \<lparr>name = ''Ann'', phones = [''1234567890''], birthday = None\<rparr>)]"
    by (simp add: handle_add_contact_def handle_add_contact_func_def input_error_def
        add_contact_def find_book_def Record_init_def Name_def isalpha_def is_alpha_char_def
        add_record_def add_phone_def Phone_def isdigit_def is_digit_char_def
        is_decimal_char_def)
  from handlers_keep_book_ok[of "[]" "[''Ann'', ''1234567890'']"] a show ?thesis by simp
qed

end
